theory Spec2Isabelle
  imports Complex_Main "HOL-Library.Multiset"
begin

section \<open>Data model of the Monte Carlo wrapper\<close>

text \<open>
  The C++ structs \<^verbatim>\<open>Trial\<close> and \<^verbatim>\<open>Result\<close> of
  \<^verbatim>\<open>montecarlo_wrapper.cpp\<close>.  A \<^verbatim>\<open>double\<close> is represented by the real number it
  denotes; the sums and products of the comparator and of the trial generator are
  rounded to a double (\<open>fl\<close> below), and a decimal literal of the source stands for
  the double nearest to it.  The numbers read from a report stand for the decimals
  they were read from.  An \<^verbatim>\<open>int\<close> is an integer, with the 32-bit range written out
  where the code does arithmetic on it.  The field \<^verbatim>\<open>id\<close> of \<^verbatim>\<open>Result\<close> is called
  \<open>id_run\<close>, since \<open>id\<close> is the identity function.
\<close>

record Trial =
  h0_km :: real
  Cd :: real
  A2M :: real

record Result =
  id_run :: int
  lifetime_days :: real
  end_alt_km :: real
  trial :: Trial
  ok :: bool

subsection \<open>Double arithmetic\<close>

text \<open>
  The result of an operation on doubles is its exact result rounded to the nearest
  double, to the one with an even significand when two are equally near (binary64:
  53 significant bits, gradual underflow below \<open>2 powr - 1022\<close>).  \<open>round_even\<close> rounds
  to the nearest integer, \<open>ulp_exp x\<close> is the exponent of the unit in the last place
  at the magnitude of \<open>x\<close>, and \<open>fl x\<close> is the double nearest to \<open>x\<close>.  Results beyond
  the largest double, which the machine makes infinite, are left finite here; no
  lifetime or trial parameter is near them.
\<close>

definition round_even :: "real \<Rightarrow> int" where
  "round_even y =
     (if y - of_int \<lfloor>y\<rfloor> < 1 / 2 then \<lfloor>y\<rfloor>
      else if 1 / 2 < y - of_int \<lfloor>y\<rfloor> then \<lfloor>y\<rfloor> + 1
      else if even \<lfloor>y\<rfloor> then \<lfloor>y\<rfloor> else \<lfloor>y\<rfloor> + 1)"

definition ulp_exp :: "real \<Rightarrow> int" where
  "ulp_exp x = max \<lfloor>log 2 \<bar>x\<bar>\<rfloor> (- 1022) - 52"

definition fl :: "real \<Rightarrow> real" where
  "fl x =
     (if x = 0 then 0
      else of_int (round_even (x / 2 powr of_int (ulp_exp x))) * 2 powr of_int (ulp_exp x))"

subsection \<open>The comparator\<close>

text \<open>
  \<^verbatim>\<open>isBetter(a, b, eps = 1e-9)\<close>: every call of the program uses the default
  \<^verbatim>\<open>eps\<close>, here \<open>eps_default\<close>, the double nearest to \<^verbatim>\<open>1e-9\<close>.  The sums
  \<^verbatim>\<open>b.lifetime_days + eps\<close> and \<^verbatim>\<open>a.lifetime_days + eps\<close> are sums of doubles.
\<close>

definition eps_default :: real where
  "eps_default = fl (1 / 10 ^ 9)"

definition isBetter :: "Result \<Rightarrow> Result \<Rightarrow> real \<Rightarrow> bool" where
  "isBetter a b eps =
     (if \<not> ok a then False
      else if \<not> ok b then True
      else if lifetime_days a > fl (lifetime_days b + eps) then True
      else if lifetime_days b > fl (lifetime_days a + eps) then False
      else h0_km (trial a) > h0_km (trial b))"

text \<open>
  Two results tie on lifetime when neither of the two lifetime tests of \<^verbatim>\<open>isBetter\<close>
  succeeds, so that the initial altitude decides.
\<close>

definition lifetime_tie :: "Result \<Rightarrow> Result \<Rightarrow> bool" where
  "lifetime_tie a b =
     (\<not> lifetime_days a > fl (lifetime_days b + eps_default) \<and>
      \<not> lifetime_days b > fl (lifetime_days a + eps_default))"

text \<open>A valid result with the given lifetime and initial altitude, for examples.\<close>

definition mkResult :: "int \<Rightarrow> real \<Rightarrow> real \<Rightarrow> bool \<Rightarrow> Result" where
  "mkResult i l h v =
     \<lparr>id_run = i, lifetime_days = l, end_alt_km = 122,
      trial = \<lparr>h0_km = h, Cd = 2, A2M = 1 / 100\<rparr>, ok = v\<rparr>"

subsection \<open>The reduction step and the coordinator's receive loop\<close>

text \<open>
  The statement \<^verbatim>\<open>if (isBetter(r, best)) best = r;\<close>, which the worker loop applies
  to its local best and the coordinator to its global best.
\<close>

definition keepBest :: "Result \<Rightarrow> Result \<Rightarrow> Result" where
  "keepBest best r = (if isBetter r best eps_default then r else best)"

text \<open>\<^verbatim>\<open>Result localBest{}; localBest.ok = false;\<close>: the zero-initialised sentinel.\<close>

definition emptyResult :: Result where
  "emptyResult =
     \<lparr>id_run = 0, lifetime_days = 0, end_alt_km = 0,
      trial = \<lparr>h0_km = 0, Cd = 0, A2M = 0\<rparr>, ok = False\<rparr>"

text \<open>
  What a process does to the outside: the engine invocation of a trial (script written,
  \<^verbatim>\<open>system\<close> called), the warning on \<^verbatim>\<open>cerr\<close>, the line of \<^verbatim>\<open>printResult\<close>, the
  message sent to rank 0, and the two final lines of the coordinator.
\<close>

datatype event =
    EngineRun int Trial
  | Warn int
  | PrintResult int Result
  | Send Result
  | BestRun Result
  | NoSuccessfulRuns

text \<open>
  The loop \<^verbatim>\<open>for (received = 1; received < size; received++)\<close> of rank 0.  The inbox
  lists the messages in their order of arrival (\<^verbatim>\<open>MPI_ANY_SOURCE\<close>); \<^verbatim>\<open>MPI_Recv\<close> on an
  empty inbox blocks for ever, which is the result \<open>None\<close>.
\<close>

function recv_loop :: "int \<Rightarrow> int \<Rightarrow> Result list \<Rightarrow> Result \<Rightarrow> Result option" where
  "recv_loop size' received inbox globalBest =
     (if received < size' then
        (case inbox of
           [] \<Rightarrow> None
         | rcv # rest \<Rightarrow> recv_loop size' (received + 1) rest (keepBest globalBest rcv))
      else Some globalBest)"
  by pat_completeness auto
termination
  by (relation "measure (\<lambda>(size', received, inbox, globalBest). nat (size' - received))") auto

declare recv_loop.simps [simp del]

definition report_best :: "Result \<Rightarrow> event" where
  "report_best globalBest = (if ok globalBest then BestRun globalBest else NoSuccessfulRuns)"

subsection \<open>The report parser\<close>

text \<open>
  The extraction \<^verbatim>\<open>iss >> x\<close> of a \<^verbatim>\<open>double\<close> belongs to the C++ library; it is
  modelled after libstdc++ in the classic locale: white space is skipped, then an
  optional sign, digits with at most one decimal point and, once a digit has been
  read, an exponent mark with an optional sign and digits are collected.  The
  collected text must convert as a whole: it needs a digit in the mantissa, a digit
  in the exponent when the mark was read, and a value that a double can hold.
\<close>

definition isspace :: "char \<Rightarrow> bool" where
  "isspace c = (c \<in> {CHR '' '', CHR 0x09, CHR 0x0A, CHR 0x0B, CHR 0x0C, CHR 0x0D})"

definition isdigit :: "char \<Rightarrow> bool" where
  "isdigit c = (c \<in> set ''0123456789'')"

text \<open>The value of a digit is its position in the text of the ten digits.\<close>

definition digit_val :: "char \<Rightarrow> nat" where
  "digit_val c = length (takeWhile (\<lambda>d. d \<noteq> c) ''0123456789'')"

definition dec_val :: "string \<Rightarrow> nat" where
  "dec_val ds = foldl (\<lambda>n c. 10 * n + digit_val c) 0 ds"

definition scan_sign :: "string \<Rightarrow> bool \<times> string" where
  "scan_sign s =
     (case s of
        [] \<Rightarrow> (False, s)
      | c # cs \<Rightarrow> if c = CHR ''-'' then (True, cs)
                 else if c = CHR ''+'' then (False, cs) else (False, s))"

definition scan_fraction :: "string \<Rightarrow> string \<times> string" where
  "scan_fraction s =
     (case s of
        [] \<Rightarrow> ([], s)
      | c # cs \<Rightarrow> if c = CHR ''.'' then (takeWhile isdigit cs, dropWhile isdigit cs)
                 else ([], s))"

text \<open>
  The exponent: \<open>None\<close> when the mark is followed by no digit (the conversion fails),
  otherwise the power of ten as a pair (negative, magnitude) and the rest.
\<close>

definition scan_exponent :: "string \<Rightarrow> ((bool \<times> nat) \<times> string) option" where
  "scan_exponent s =
     (case s of
        [] \<Rightarrow> Some ((False, 0), s)
      | c # cs \<Rightarrow>
          if c = CHR ''e'' \<or> c = CHR ''E'' then
            (let (neg, ds) = scan_sign cs
             in if takeWhile isdigit ds = [] then None
                else Some ((neg, dec_val (takeWhile isdigit ds)), dropWhile isdigit ds))
          else Some ((False, 0), s))"

text \<open>Magnitudes from here on round to infinity: the conversion reports overflow.\<close>

definition DBL_OVERFLOW :: real where
  "DBL_OVERFLOW = 2 ^ 1024 - 2 ^ 970"

definition read_double :: "string \<Rightarrow> (real \<times> string) option" where
  "read_double s =
     (let (neg, s1) = scan_sign (dropWhile isspace s);
          ip = takeWhile isdigit s1;
          (fp, s2) = scan_fraction (dropWhile isdigit s1)
      in if ip = [] \<and> fp = [] then None
         else
           (case scan_exponent s2 of
              None \<Rightarrow> None
            | Some ((eneg, e), rest) \<Rightarrow>
                (let m = real (dec_val ip) + real (dec_val fp) / 10 ^ length fp;
                     v = (if eneg then m / 10 ^ e else m * 10 ^ e)
                 in if DBL_OVERFLOW \<le> v then None
                    else Some (if neg then - v else v, rest))))"

text \<open>\<^verbatim>\<open>iss >> a >> b\<close> on the text of one line.\<close>

definition read_pair :: "string \<Rightarrow> (real \<times> real) option" where
  "read_pair line =
     (case read_double line of
        None \<Rightarrow> None
      | Some (a, rest) \<Rightarrow>
          (case read_double rest of None \<Rightarrow> None | Some (b, rest') \<Rightarrow> Some (a, b)))"

text \<open>
  \<^verbatim>\<open>getline(in, line)\<close> on the unread text of the file: it fails when nothing is left,
  and otherwise yields the text up to the first newline and what follows that newline.
\<close>

definition getline :: "string \<Rightarrow> (string \<times> string) option" where
  "getline s =
     (if s = [] then None
      else Some (takeWhile (\<lambda>c. c \<noteq> CHR 0x0A) s, drop 1 (dropWhile (\<lambda>c. c \<noteq> CHR 0x0A) s)))"

text \<open>
  \<^verbatim>\<open>parseTwoLineReport\<close>.  The argument is the text of the file at \<^verbatim>\<open>path\<close>, \<open>None\<close>
  when the file cannot be opened; the result is \<open>None\<close> where the source returns
  \<^verbatim>\<open>false\<close>, and the four output parameters where it returns \<^verbatim>\<open>true\<close>.
\<close>

definition parseTwoLineReport :: "string option \<Rightarrow> (real \<times> real \<times> real \<times> real) option" where
  "parseTwoLineReport file =
     (case file of
        None \<Rightarrow> None
      | Some content \<Rightarrow>
          (case getline content of
             None \<Rightarrow> None
           | Some (line1, rest1) \<Rightarrow>
               (case read_pair line1 of
                  None \<Rightarrow> None
                | Some (startA1, startAlt) \<Rightarrow>
                    (case getline rest1 of
                       None \<Rightarrow> None
                     | Some (line2, rest2) \<Rightarrow>
                         (case read_pair line2 of
                            None \<Rightarrow> None
                          | Some (endA1, endAlt) \<Rightarrow>
                              Some (startA1, startAlt, endA1, endAlt))))))"

subsection \<open>Running one trial\<close>

text \<open>
  The external engine is a parameter: \<open>gmat id t massKg maxDaysCap\<close> is the text of the
  report file \<^verbatim>\<open>traj_<id>.csv\<close> once the engine has run on the script of the trial, or
  \<open>None\<close> when there is no such file.  \<^verbatim>\<open>runSingleTrajectory\<close> returns the result and
  what it did: the engine run, and the warning when the report does not parse.
\<close>

type_synonym engine = "int \<Rightarrow> Trial \<Rightarrow> real \<Rightarrow> real \<Rightarrow> string option"

definition runSingleTrajectory ::
  "engine \<Rightarrow> int \<Rightarrow> Trial \<Rightarrow> real \<Rightarrow> real \<Rightarrow> Result \<times> event list" where
  "runSingleTrajectory gmat i t massKg maxDaysCap =
     (let result = \<lparr>id_run = i, lifetime_days = 0, end_alt_km = 0, trial = t, ok = False\<rparr>
      in case parseTwoLineReport (gmat i t massKg maxDaysCap) of
           None \<Rightarrow> (result, [EngineRun i t, Warn i])
         | Some (startA1, startAlt, endA1, endAlt) \<Rightarrow>
             (result\<lparr>lifetime_days := endA1 - startA1, end_alt_km := endAlt, ok := True\<rparr>,
              [EngineRun i t]))"

subsection \<open>The trial generator\<close>

text \<open>
  \<^verbatim>\<open>srand\<close>, \<^verbatim>\<open>rand\<close> and \<^verbatim>\<open>RAND_MAX\<close> belong to the C library and are parameters:
  a generator state of any type, the state that \<^verbatim>\<open>srand\<close> installs for a seed (an
  \<^verbatim>\<open>unsigned int\<close>), and \<^verbatim>\<open>rand\<close> as a function from the state to the number drawn
  and the next state.
\<close>

record 's libc =
  srand :: "nat \<Rightarrow> 's"
  rand :: "'s \<Rightarrow> int \<times> 's"
  RAND_MAX :: int

definition urand :: "'s libc \<Rightarrow> 's \<Rightarrow> real \<times> 's" where
  "urand lib s =
     (case rand lib s of (v, s') \<Rightarrow> (fl (real_of_int v / real_of_int (RAND_MAX lib)), s'))"

text \<open>
  The three assignments of \<^verbatim>\<open>generateRandomLEO\<close>; the literals \<^verbatim>\<open>0.6\<close>, \<^verbatim>\<open>0.005\<close> and
  \<^verbatim>\<open>0.045\<close> are not doubles and stand for the nearest ones.
\<close>

definition generateRandomLEO :: "'s libc \<Rightarrow> 's \<Rightarrow> Trial \<times> 's" where
  "generateRandomLEO lib s =
     (case urand lib s of (u1, s1) \<Rightarrow>
      case urand lib s1 of (u2, s2) \<Rightarrow>
      case urand lib s2 of (u3, s3) \<Rightarrow>
        (\<lparr>h0_km = fl (500 + fl (500 * u1)),
          Cd = fl (2 + fl (fl (6 / 10) * u2)),
          A2M = fl (fl (5 / 1000) + fl (fl (45 / 1000) * u3))\<rparr>,
         s3))"

subsection \<open>The worker loop\<close>

definition GLOBAL_SEED :: int where
  "GLOBAL_SEED = 1234"

definition INT_MAX :: int where
  "INT_MAX = 2147483647"

definition INT_MIN :: int where
  "INT_MIN = - 2147483648"

text \<open>
  The state of a process in the loop: the generator of the C library, the local best
  and what the process has done so far.
\<close>

record 's wstate =
  rng :: 's
  localBest :: Result
  trace :: "event list"

text \<open>
  The body of the loop for the index \<open>i\<close>.  The seed \<^verbatim>\<open>GLOBAL_SEED + i\<close> is an \<^verbatim>\<open>int\<close>
  converted to the \<^verbatim>\<open>unsigned int\<close> that \<^verbatim>\<open>srand\<close> takes.
\<close>

definition loop_body ::
  "'s libc \<Rightarrow> engine \<Rightarrow> int \<Rightarrow> real \<Rightarrow> real \<Rightarrow> int \<Rightarrow> 's wstate \<Rightarrow> 's wstate" where
  "loop_body lib gmat rank massKg maxDaysCap i st =
     (case generateRandomLEO lib (srand lib (nat ((GLOBAL_SEED + i) mod 2 ^ 32))) of
        (t, s') \<Rightarrow>
          (case runSingleTrajectory gmat i t massKg maxDaysCap of
             (r, evs) \<Rightarrow>
               if ok r then
                 st\<lparr>rng := s', localBest := keepBest (localBest st) r,
                    trace := trace st @ evs @ [PrintResult rank r]\<rparr>
               else st\<lparr>rng := s', trace := trace st @ evs\<rparr>))"

text \<open>
  \<^verbatim>\<open>for (int i = rank; i < numSimulations; i += size)\<close>, from the index \<open>i\<close> on.  The
  loop need not end (\<open>None\<close>, when \<^verbatim>\<open>size\<close> is 0), and the additions \<^verbatim>\<open>GLOBAL_SEED + i\<close>
  and \<^verbatim>\<open>i += size\<close> are on 32-bit integers: where one leaves the range of \<^verbatim>\<open>int\<close> the
  behaviour of the program is undefined, which is the outcome \<open>IntOverflow\<close>.
\<close>

datatype fault = IntOverflow

partial_function (option) worker_loop ::
  "'s libc \<Rightarrow> engine \<Rightarrow> int \<Rightarrow> int \<Rightarrow> int \<Rightarrow> real \<Rightarrow> real \<Rightarrow> int \<Rightarrow> 's wstate
     \<Rightarrow> (fault + 's wstate) option" where
  "worker_loop lib gmat numSimulations rank size' massKg maxDaysCap i st =
     (if i < numSimulations then
        (if INT_MAX < GLOBAL_SEED + i then Some (Inl IntOverflow)
         else if INT_MAX < i + size' \<or> i + size' < INT_MIN then Some (Inl IntOverflow)
         else worker_loop lib gmat numSimulations rank size' massKg maxDaysCap (i + size')
                (loop_body lib gmat rank massKg maxDaysCap i st))
      else Some (Inr st))"

text \<open>
  \<^verbatim>\<open>runMonteCarloDecay\<close> on one process: the loop from \<^verbatim>\<open>i = rank\<close>, then on rank 0 the
  receive loop and the final line, on the other ranks the message to rank 0.  The
  result is everything the process did, in order.
\<close>

definition runMonteCarloDecay ::
  "'s libc \<Rightarrow> engine \<Rightarrow> 's \<Rightarrow> Result list \<Rightarrow> int \<Rightarrow> int \<Rightarrow> int \<Rightarrow> real \<Rightarrow> real
     \<Rightarrow> (fault + event list) option" where
  "runMonteCarloDecay lib gmat rng0 inbox numSimulations rank size' massKg maxDaysCap =
     (case worker_loop lib gmat numSimulations rank size' massKg maxDaysCap rank
             \<lparr>rng = rng0, localBest = emptyResult, trace = []\<rparr> of
        None \<Rightarrow> None
      | Some (Inl f) \<Rightarrow> Some (Inl f)
      | Some (Inr st) \<Rightarrow>
          if rank = 0 then
            (case recv_loop size' 1 inbox (localBest st) of
               None \<Rightarrow> None
             | Some globalBest \<Rightarrow> Some (Inr (trace st @ [report_best globalBest])))
          else Some (Inr (trace st @ [Send (localBest st)])))"

text \<open>The indices of the trials a process has run, in the order it ran them.\<close>

fun engine_runs :: "event list \<Rightarrow> int list" where
  "engine_runs [] = []"
| "engine_runs (EngineRun i t # es) = i # engine_runs es"
| "engine_runs (e # es) = engine_runs es"

subsection \<open>Notions of the specification\<close>

text \<open>
  The trial of an index, a function of the index and the C library alone: the
  generator is seeded with \<^verbatim>\<open>GLOBAL_SEED + i\<close> and three numbers are drawn.
\<close>

definition trial_of :: "'s libc \<Rightarrow> int \<Rightarrow> Trial" where
  "trial_of lib i = fst (generateRandomLEO lib (srand lib (nat ((GLOBAL_SEED + i) mod 2 ^ 32))))"

text \<open>The indices \<open>r\<close>, \<open>r + W\<close>, \<open>r + 2W\<close>, ... below \<open>N\<close>, in this order.\<close>

definition stride_indices :: "int \<Rightarrow> int \<Rightarrow> int \<Rightarrow> int list" where
  "stride_indices r N W = map (\<lambda>k. r + int k * W) [0 ..< nat ((N - r + W - 1) div W)]"

text \<open>
  The lines of a text: the newline ends a line, and a last line need not have one.
\<close>

fun split_lines :: "string \<Rightarrow> string \<Rightarrow> string list" where
  "split_lines cur [] = (if cur = [] then [] else [cur])"
| "split_lines cur (c # cs) =
     (if c = CHR 0x0A then cur # split_lines [] cs else split_lines (cur @ [c]) cs)"

definition text_lines :: "string \<Rightarrow> string list" where
  "text_lines s = split_lines [] s"

text \<open>A line begins with two numeric tokens; a report has two lines that do.\<close>

definition two_numeric_tokens :: "string \<Rightarrow> bool" where
  "two_numeric_tokens line =
     (case read_double line of
        None \<Rightarrow> False
      | Some (a, rest) \<Rightarrow> (case read_double rest of None \<Rightarrow> False | Some (b, rest') \<Rightarrow> True))"

definition well_formed_report :: "string \<Rightarrow> bool" where
  "well_formed_report content =
     (case text_lines content of
        l1 # l2 # ls \<Rightarrow> two_numeric_tokens l1 \<and> two_numeric_tokens l2
      | _ \<Rightarrow> False)"

text \<open>
  A C library for examples: the sample implementation of \<^verbatim>\<open>rand\<close> and \<^verbatim>\<open>srand\<close> in
  the C standard, whose \<^verbatim>\<open>RAND_MAX\<close> is 32767.  The state is the variable \<^verbatim>\<open>next\<close>.
\<close>

definition sample_libc :: "nat libc" where
  "sample_libc =
     \<lparr>srand = (\<lambda>seed. seed),
      rand = (\<lambda>next.
        (int (((next * 1103515245 + 12345) mod 2 ^ 32) div 65536 mod 32768),
         (next * 1103515245 + 12345) mod 2 ^ 32)),
      RAND_MAX = 32767\<rparr>"

text \<open>A process state for examples: nothing done yet, the local best empty.\<close>

definition initial_state :: "nat wstate" where
  "initial_state = \<lparr>rng = 1, localBest = emptyResult, trace = []\<rparr>"

section \<open>Auxiliary facts\<close>

subsection \<open>Rounding\<close>

lemma round_even_cases: "round_even y = \<lfloor>y\<rfloor> \<or> round_even y = \<lfloor>y\<rfloor> + 1"
  by (simp add: round_even_def)

lemma round_even_of_int: "round_even (of_int n) = n"
  by (simp add: round_even_def)

lemma round_even_mono:
  assumes "a \<le> b"
  shows "round_even a \<le> round_even b"
proof (cases "\<lfloor>a\<rfloor> < \<lfloor>b\<rfloor>")
  case True
  have "round_even a \<le> \<lfloor>a\<rfloor> + 1" using round_even_cases [of a] by auto
  also have "\<dots> \<le> \<lfloor>b\<rfloor>" using True by simp
  also have "\<dots> \<le> round_even b" using round_even_cases [of b] by auto
  finally show ?thesis .
next
  case False
  with assms have eq: "\<lfloor>a\<rfloor> = \<lfloor>b\<rfloor>" using floor_mono [of a b] by simp
  from assms have "a - of_int \<lfloor>b\<rfloor> \<le> b - of_int \<lfloor>b\<rfloor>" by simp
  then show ?thesis unfolding round_even_def eq by auto
qed

lemma round_even_minus: "round_even (- y) = - round_even y"
proof (cases "y = of_int \<lfloor>y\<rfloor>")
  case True
  then obtain n where "y = of_int n" ..
  then have "- y = of_int (- n)" by simp
  with \<open>y = of_int n\<close> show ?thesis by (simp only: round_even_of_int)
next
  case False
  then have "\<lceil>y\<rceil> = \<lfloor>y\<rfloor> + 1" by (simp add: ceiling_altdef)
  then have f: "\<lfloor>- y\<rfloor> = - \<lfloor>y\<rfloor> - 1" by (simp add: ceiling_def)
  have lt: "of_int \<lfloor>y\<rfloor> < y" using False by (metis floor_correct less_eq_real_def)
  show ?thesis unfolding round_even_def f using lt by (auto simp: field_simps)
qed

lemma round_even_nonneg: "0 \<le> y \<Longrightarrow> 0 \<le> round_even y"
  using round_even_mono [of 0 y] round_even_of_int [of 0] by simp

lemma ulp_exp_minus: "ulp_exp (- x) = ulp_exp x"
  by (simp add: ulp_exp_def)

lemma fl_minus: "fl (- x) = - fl x"
  by (simp add: fl_def ulp_exp_minus round_even_minus)

lemma fl_nonneg: "0 \<le> x \<Longrightarrow> 0 \<le> fl x"
  by (simp add: fl_def round_even_nonneg)

lemma ulp_exp_mono: "0 < x \<Longrightarrow> x \<le> y \<Longrightarrow> ulp_exp x \<le> ulp_exp y"
proof -
  assume a: "0 < x" "x \<le> y"
  then have "log 2 x \<le> log 2 y" by simp
  then have "\<lfloor>log 2 x\<rfloor> \<le> \<lfloor>log 2 y\<rfloor>" by (rule floor_mono)
  with a show ?thesis by (simp add: ulp_exp_def)
qed

lemma below_next_power:
  assumes "0 < x"
  shows "x < 2 powr of_int (ulp_exp x + 53)"
proof -
  have "log 2 x < of_int (\<lfloor>log 2 x\<rfloor> + 1)" by linarith
  also have "\<dots> \<le> of_int (ulp_exp x + 53)" using assms by (simp add: ulp_exp_def)
  finally have "2 powr log 2 x < 2 powr of_int (ulp_exp x + 53)" by simp
  with assms show ?thesis by simp
qed

lemma above_power:
  assumes "0 < x" and "- 1074 < ulp_exp x"
  shows "2 powr of_int (ulp_exp x + 52) \<le> x"
proof -
  from assms(2) have "ulp_exp x + 52 = \<lfloor>log 2 x\<rfloor>"
    using assms(1) by (simp add: ulp_exp_def max_def split: if_splits)
  then have "of_int (ulp_exp x + 52) \<le> log 2 x" by simp
  then have "2 powr of_int (ulp_exp x + 52) \<le> 2 powr log 2 x" by simp
  with assms show ?thesis by simp
qed

lemma fl_upper:
  assumes "0 < x"
  shows "fl x \<le> 2 powr of_int (ulp_exp x + 53)"
proof -
  let ?u = "(2::real) powr of_int (ulp_exp x)"
  have u: "0 < ?u" by simp
  have "x / ?u \<le> 2 powr of_int (ulp_exp x + 53) / ?u"
    using below_next_power [OF assms] u by (simp add: divide_right_mono)
  also have "2 powr of_int (ulp_exp x + 53) / ?u = 2 powr 53"
    by (simp add: powr_diff [symmetric])
  also have "\<dots> = of_int (2 ^ 53)" by (simp add: powr_numeral)
  finally have "round_even (x / ?u) \<le> round_even (of_int (2 ^ 53))"
    by (rule round_even_mono)
  then have "round_even (x / ?u) \<le> 2 ^ 53" by (simp only: round_even_of_int)
  then have "of_int (round_even (x / ?u)) \<le> (2 powr 53 :: real)"
    by (simp add: powr_numeral)
  then have "of_int (round_even (x / ?u)) * ?u \<le> 2 powr 53 * ?u"
    using u by (simp add: mult_right_mono)
  also have "2 powr 53 * ?u = 2 powr of_int (ulp_exp x + 53)"
    by (simp add: powr_add)
  finally show ?thesis using assms by (simp add: fl_def)
qed

lemma fl_lower:
  assumes "0 < x" and "- 1074 < ulp_exp x"
  shows "2 powr of_int (ulp_exp x + 52) \<le> fl x"
proof -
  let ?u = "(2::real) powr of_int (ulp_exp x)"
  have u: "0 < ?u" by simp
  have "2 powr of_int (ulp_exp x + 52) / ?u \<le> x / ?u"
    using above_power [OF assms] u by (simp add: divide_right_mono)
  moreover have "2 powr of_int (ulp_exp x + 52) / ?u = 2 powr 52"
    by (simp add: powr_diff [symmetric])
  moreover have "(2 powr 52 :: real) = of_int (2 ^ 52)" by (simp add: powr_numeral)
  ultimately have "round_even (of_int (2 ^ 52)) \<le> round_even (x / ?u)"
    by (simp only: round_even_mono)
  then have "2 ^ 52 \<le> round_even (x / ?u)" by (simp only: round_even_of_int)
  then have "(2 powr 52 :: real) \<le> of_int (round_even (x / ?u))"
    by (simp add: powr_numeral)
  then have m: "2 powr 52 * ?u \<le> of_int (round_even (x / ?u)) * ?u"
    using u by (simp add: mult_right_mono)
  have "2 powr of_int (ulp_exp x + 52) = 2 powr 52 * ?u"
    by (simp add: powr_add)
  also note m
  finally show ?thesis using assms by (simp add: fl_def)
qed

lemma fl_mono_pos:
  assumes "0 < x" and "x \<le> y"
  shows "fl x \<le> fl y"
proof (cases "ulp_exp x = ulp_exp y")
  case True
  let ?u = "(2::real) powr of_int (ulp_exp y)"
  have "x / ?u \<le> y / ?u" using assms by (simp add: divide_right_mono)
  then have "round_even (x / ?u) \<le> round_even (y / ?u)" by (rule round_even_mono)
  then have "of_int (round_even (x / ?u)) * ?u \<le> of_int (round_even (y / ?u)) * ?u"
    by (simp add: mult_right_mono)
  with assms True show ?thesis by (simp add: fl_def)
next
  case False
  with ulp_exp_mono [OF assms] have lt: "ulp_exp x < ulp_exp y" by simp
  have y: "0 < y" using assms by simp
  have "- 1074 \<le> ulp_exp x" by (simp add: ulp_exp_def)
  with lt have n: "- 1074 < ulp_exp y" by simp
  have "fl x \<le> 2 powr of_int (ulp_exp x + 53)" by (rule fl_upper [OF assms(1)])
  also have "\<dots> \<le> 2 powr of_int (ulp_exp y + 52)" using lt by simp
  also have "\<dots> \<le> fl y" by (rule fl_lower [OF y n])
  finally show ?thesis .
qed

lemma fl_zero: "fl 0 = 0"
  by (simp add: fl_def)

lemma fl_mono:
  assumes "x \<le> y"
  shows "fl x \<le> fl y"
proof -
  consider "0 < x" | "y < 0" | "x \<le> 0" "0 \<le> y" by linarith
  then show ?thesis
  proof cases
    case 1
    then show ?thesis using assms by (rule fl_mono_pos)
  next
    case 2
    then have "0 < - y" and "- y \<le> - x" using assms by simp_all
    then have "fl (- y) \<le> fl (- x)" by (rule fl_mono_pos)
    then show ?thesis by (simp add: fl_minus)
  next
    case 3
    then have "0 \<le> fl y" and "0 \<le> fl (- x)" by (simp_all add: fl_nonneg)
    then show ?thesis by (simp add: fl_minus)
  qed
qed

lemma fl_eval:
  assumes "2 powr of_int e \<le> \<bar>x\<bar>" and "\<bar>x\<bar> < 2 powr of_int (e + 1)" and "- 1022 \<le> e"
  shows "fl x = of_int (round_even (x / 2 powr of_int (e - 52))) * 2 powr of_int (e - 52)"
proof -
  have "0 < (2::real) powr of_int e" by simp
  with assms(1) have pos: "0 < \<bar>x\<bar>" by linarith
  then have nz: "x \<noteq> 0" by simp
  from assms(1,2) have "\<lfloor>log 2 \<bar>x\<bar>\<rfloor> = e"
    using floor_log_eq_powr_iff [OF pos, of 2 e] by simp
  with assms(3) have "ulp_exp x = e - 52" by (simp add: ulp_exp_def)
  with nz show ?thesis by (simp add: fl_def)
qed

lemma fl_eval_pos:
  assumes "2 ^ k \<le> \<bar>x\<bar>" and "\<bar>x\<bar> < 2 * 2 ^ k" and "k \<le> 52"
  shows "fl x = of_int (round_even (x * 2 ^ (52 - k))) / 2 ^ (52 - k)"
proof -
  have a: "(2::real) powr of_int (int k) = 2 ^ k" by (simp add: powr_realpow)
  have b: "(2::real) powr of_int (int k + 1) = 2 * 2 ^ k"
    by (simp add: powr_add powr_realpow)
  have c0: "real_of_int (int k - 52) = - real (52 - k)" using assms(3) by simp
  have c: "(2::real) powr of_int (int k - 52) = 1 / 2 ^ (52 - k)"
    unfolding c0 by (simp add: powr_minus_divide powr_realpow)
  have m: "- 1022 \<le> int k" by simp
  from fl_eval [of "int k" x, unfolded a b c, OF assms(1,2) m] show ?thesis
    by simp
qed

lemma fl_eval_neg:
  assumes "1 \<le> \<bar>x\<bar> * 2 ^ k" and "\<bar>x\<bar> * 2 ^ k < 2" and "k \<le> 1022"
  shows "fl x = of_int (round_even (x * 2 ^ (52 + k))) / 2 ^ (52 + k)"
proof -
  have a: "(2::real) powr of_int (- int k) = 1 / 2 ^ k"
    by (simp add: powr_minus_divide powr_realpow)
  have b: "(2::real) powr of_int (- int k + 1) = 2 / 2 ^ k"
    by (simp add: powr_diff powr_realpow)
  have c0: "real_of_int (- int k - 52) = - real (52 + k)" by simp
  have "(2::real) powr (- real (52 + k)) = 1 / 2 powr real (52 + k)"
    by (rule powr_minus_divide)
  also have "(2::real) powr real (52 + k) = 2 ^ (52 + k)"
    by (rule powr_realpow) simp
  finally have c: "(2::real) powr of_int (- int k - 52) = 1 / 2 ^ (52 + k)"
    by (simp only: c0)
  have p: "(0::real) < 2 ^ k" by simp
  from assms(1) have d: "1 / 2 ^ k \<le> \<bar>x\<bar>" using p by (simp add: field_simps)
  from assms(2) have e: "\<bar>x\<bar> < 2 / 2 ^ k" using p by (simp add: field_simps)
  have m: "- 1022 \<le> - int k" using assms(3) by simp
  from fl_eval [of "- int k" x, unfolded a b c, OF d e m] show ?thesis
    by simp
qed

lemma eps_default_eq: "eps_default = 4835703278458517 / 2 ^ 82"
  unfolding eps_default_def
  by (subst fl_eval_neg [where k = 30]) (simp_all add: round_even_def)


text \<open>
  The sums that the examples need: of the double nearest to \<^verbatim>\<open>1e-9\<close> and the lifetimes
  84, 84 + \<open>2 powr - 31\<close>, 84 + \<open>2 powr - 30\<close>, 84 + \<open>2 powr - 29\<close>, 86, 84.061 and
  84.06100000100001 (the doubles of these decimals), and the constants of the
  trial generator.
\<close>

lemma fl_84: "fl (84 + eps_default) = 5910974510994145 / 2 ^ 46"
  unfolding eps_default_eq
  by (subst fl_eval_pos [where k = 6]) (simp_all add: round_even_def)

lemma fl_84_30: "fl (84 + 1 / 2 ^ 30 + eps_default) = 5910974511059681 / 2 ^ 46"
  unfolding eps_default_eq
  by (subst fl_eval_pos [where k = 6]) (simp_all add: round_even_def)

lemma fl_84_29: "fl (84 + 1 / 2 ^ 29 + eps_default) = 5910974511125217 / 2 ^ 46"
  unfolding eps_default_eq
  by (subst fl_eval_pos [where k = 6]) (simp_all add: round_even_def)

lemma fl_84_31: "fl (84 + 1 / 2 ^ 31 + eps_default) = 5910974511026913 / 2 ^ 46"
  unfolding eps_default_eq
  by (subst fl_eval_pos [where k = 6]) (simp_all add: round_even_def)

lemma fl_86: "fl (86 + eps_default) = 6051711999349473 / 2 ^ 46"
  unfolding eps_default_eq
  by (subst fl_eval_pos [where k = 6]) (simp_all add: round_even_def)

lemma fl_84061: "fl (2957633502159307 / 2 ^ 45 + eps_default) = 5915267004388983 / 2 ^ 46"
  unfolding eps_default_eq
  by (subst fl_eval_pos [where k = 6]) (simp_all add: round_even_def)

lemma fl_84061_up: "fl (5915267004388983 / 2 ^ 46 + eps_default) = 739408375557419 / 2 ^ 43"
  unfolding eps_default_eq
  by (subst fl_eval_pos [where k = 6]) (simp_all add: round_even_def)

lemma fl_doubles:
  "fl 84 = 84" "fl 86 = 86" "fl (84 + 1 / 2 ^ 31) = 84 + 1 / 2 ^ 31"
  "fl (84 + 1 / 2 ^ 30) = 84 + 1 / 2 ^ 30" "fl (84 + 1 / 2 ^ 29) = 84 + 1 / 2 ^ 29"
  by (subst fl_eval_pos [where k = 6]; simp add: round_even_def)+

lemma fl_consts:
  "fl 1 = 1" "fl 500 = 500" "fl 1000 = 1000"
  by (subst fl_eval_pos [where k = 0], simp_all add: round_even_def,
      subst fl_eval_pos [where k = 8], simp_all add: round_even_def,
      subst fl_eval_pos [where k = 9], simp_all add: round_even_def)

lemma fl_6_10: "fl (6 / 10) = 5404319552844595 / 2 ^ 53"
  by (subst fl_eval_neg [where k = 1]) (simp_all add: round_even_def)

lemma fl_6_10_again: "fl (5404319552844595 / 2 ^ 53) = 5404319552844595 / 2 ^ 53"
  by (subst fl_eval_neg [where k = 1]) (simp_all add: round_even_def)

lemma fl_2_6: "fl (2 + 5404319552844595 / 2 ^ 53) = 5854679515581645 / 2 ^ 51"
  by (subst fl_eval_pos [where k = 1]) (simp_all add: round_even_def)

lemma fl_26_10: "fl (26 / 10) = 5854679515581645 / 2 ^ 51"
  by (subst fl_eval_pos [where k = 1]) (simp_all add: round_even_def)

lemma fl_small_consts:
  "fl 2 = 2"
  "fl (5 / 1000) = 5764607523034235 / 2 ^ 60"
  "fl (5764607523034235 / 2 ^ 60) = 5764607523034235 / 2 ^ 60"
  "fl (45 / 1000) = 3242591731706757 / 2 ^ 56"
  "fl (3242591731706757 / 2 ^ 56) = 3242591731706757 / 2 ^ 56"
  "fl (5764607523034235 / 2 ^ 60 + 3242591731706757 / 2 ^ 56) = 7205759403792793 / 2 ^ 57"
  "fl (5 / 100) = 3602879701896397 / 2 ^ 56"
  by (subst fl_eval_pos [where k = 1], simp_all add: round_even_def,
      subst fl_eval_neg [where k = 8], simp_all add: round_even_def,
      subst fl_eval_neg [where k = 8], simp_all add: round_even_def,
      subst fl_eval_neg [where k = 5], simp_all add: round_even_def,
      subst fl_eval_neg [where k = 5], simp_all add: round_even_def,
      subst fl_eval_neg [where k = 5], simp_all add: round_even_def,
      subst fl_eval_neg [where k = 5], simp_all add: round_even_def)

subsection \<open>The comparator and the fold\<close>

lemma eps_default_pos: "0 < eps_default"
  by (simp add: eps_default_eq)

lemma fl_add_eps_ge: "fl y = y \<Longrightarrow> y \<le> fl (y + eps_default)"
  using fl_mono [of y "y + eps_default"] eps_default_pos by simp

lemma above_rounded: "fl x = x \<Longrightarrow> fl y < x \<Longrightarrow> y < x"
  using fl_mono [of x y] by (cases "y < x") simp_all

lemma isBetter_irrefl: "fl (lifetime_days a) = lifetime_days a \<Longrightarrow> \<not> isBetter a a eps_default"
  using fl_add_eps_ge [of "lifetime_days a"] by (simp add: isBetter_def)

lemma isBetter_ok: "isBetter a b eps \<Longrightarrow> ok a"
  by (simp add: isBetter_def split: if_splits)

lemma isBetter_invalid: "ok a \<Longrightarrow> \<not> ok b \<Longrightarrow> isBetter a b eps"
  by (simp add: isBetter_def)

lemma keepBest_invalid: "\<not> ok r \<Longrightarrow> keepBest acc r = acc"
  by (simp add: keepBest_def isBetter_def)

lemma keepBest_cases: "keepBest acc r = acc \<or> keepBest acc r = r"
  by (simp add: keepBest_def)

lemma foldl_keepBest_mem: "foldl keepBest init xs \<in> insert init (set xs)"
proof (induction xs rule: rev_induct)
  case Nil
  show ?case by simp
next
  case (snoc x xs)
  from keepBest_cases [of "foldl keepBest init xs" x] snoc show ?case
    by auto
qed

lemma foldl_keepBest_invalid:
  "\<not> ok (foldl keepBest init xs) \<Longrightarrow> foldl keepBest init xs = init"
proof (induction xs rule: rev_induct)
  case Nil
  show ?case by simp
next
  case (snoc x xs)
  show ?case
  proof (cases "isBetter x (foldl keepBest init xs) eps_default")
    case True
    then have "ok x" by (rule isBetter_ok)
    moreover from True have "foldl keepBest init (xs @ [x]) = x"
      by (simp add: keepBest_def)
    ultimately show ?thesis using snoc.prems by simp
  next
    case False
    then have "foldl keepBest init (xs @ [x]) = foldl keepBest init xs"
      by (simp add: keepBest_def)
    with snoc show ?thesis by simp
  qed
qed

lemma foldl_keepBest_all_invalid:
  "\<forall>r\<in>set xs. \<not> ok r \<Longrightarrow> foldl keepBest init xs = init"
  by (induction xs arbitrary: init) (simp_all add: keepBest_invalid)

lemma foldl_keepBest_maximal:
  assumes tr: "\<forall>x\<in>insert init (set xs). \<forall>y\<in>insert init (set xs). \<forall>z\<in>insert init (set xs).
      isBetter x y eps_default \<and> isBetter y z eps_default \<longrightarrow> isBetter x z eps_default"
    and dbl: "\<forall>x\<in>insert init (set xs). fl (lifetime_days x) = lifetime_days x"
  shows "\<forall>y\<in>insert init (set xs). \<not> isBetter y (foldl keepBest init xs) eps_default"
  using tr dbl
proof (induction xs rule: rev_induct)
  case Nil
  then show ?case by (simp add: isBetter_irrefl)
next
  case (snoc x xs)
  let ?acc = "foldl keepBest init xs"
  have sub: "insert init (set xs) \<subseteq> insert init (set (xs @ [x]))" by auto
  have IH: "\<forall>y\<in>insert init (set xs). \<not> isBetter y ?acc eps_default"
    by (rule snoc.IH) (use snoc.prems sub in blast)+
  have accmem: "?acc \<in> insert init (set (xs @ [x]))"
    using foldl_keepBest_mem [of init xs] sub by blast
  have xmem: "x \<in> insert init (set (xs @ [x]))" by simp
  from snoc.prems(2) xmem have xd: "fl (lifetime_days x) = lifetime_days x" by blast
  show ?case
  proof (cases "isBetter x ?acc eps_default")
    case True
    then have new: "foldl keepBest init (xs @ [x]) = x" by (simp add: keepBest_def)
    have "\<not> isBetter y x eps_default" if y: "y \<in> insert init (set (xs @ [x]))" for y
    proof
      assume yx: "isBetter y x eps_default"
      with True snoc.prems(1) y xmem accmem have yacc: "isBetter y ?acc eps_default" by blast
      from y have "y = x \<or> y \<in> insert init (set xs)" by auto
      then show False
      proof
        assume "y = x"
        with yx show False using isBetter_irrefl [OF xd] by simp
      next
        assume "y \<in> insert init (set xs)"
        with IH yacc show False by blast
      qed
    qed
    with new show ?thesis by simp
  next
    case False
    then have old: "foldl keepBest init (xs @ [x]) = ?acc" by (simp add: keepBest_def)
    have "\<not> isBetter y ?acc eps_default" if y: "y \<in> insert init (set (xs @ [x]))" for y
    proof -
      from y have "y = x \<or> y \<in> insert init (set xs)" by auto
      with False IH show ?thesis by blast
    qed
    with old show ?thesis by simp
  qed
qed

lemma recv_loop_foldl:
  "recv_loop size' received inbox globalBest =
     (if size' - received \<le> int (length inbox)
      then Some (foldl keepBest globalBest (take (nat (size' - received)) inbox))
      else None)"
proof (induction size' received inbox globalBest rule: recv_loop.induct)
  case (1 size' received inbox globalBest)
  show ?case
  proof (cases "received < size'")
    case False
    then show ?thesis by (subst recv_loop.simps) simp
  next
    case True
    show ?thesis
    proof (cases inbox)
      case Nil
      with True show ?thesis by (subst recv_loop.simps) simp
    next
      case (Cons rcv rest)
      have n: "nat (size' - received) = Suc (nat (size' - (received + 1)))"
        using True by simp
      from "1.IH" [OF True Cons] True Cons show ?thesis
        by (subst recv_loop.simps) (simp add: n)
    qed
  qed
qed

subsection \<open>The worker loop\<close>

lemma engine_runs_append: "engine_runs (xs @ ys) = engine_runs xs @ engine_runs ys"
  by (induction xs rule: engine_runs.induct) simp_all

lemma runSingleTrajectory_fail:
  "parseTwoLineReport (gmat i t massKg maxDaysCap) = None \<Longrightarrow>
   runSingleTrajectory gmat i t massKg maxDaysCap =
     (\<lparr>id_run = i, lifetime_days = 0, end_alt_km = 0, trial = t, ok = False\<rparr>,
      [EngineRun i t, Warn i])"
  by (simp add: runSingleTrajectory_def)

lemma runSingleTrajectory_ok:
  "parseTwoLineReport (gmat i t massKg maxDaysCap) = Some (startA1, startAlt, endA1, endAlt) \<Longrightarrow>
   runSingleTrajectory gmat i t massKg maxDaysCap =
     (\<lparr>id_run = i, lifetime_days = endA1 - startA1, end_alt_km = endAlt, trial = t, ok = True\<rparr>,
      [EngineRun i t])"
  by (simp add: runSingleTrajectory_def)

lemma ok_runSingleTrajectory:
  "ok (fst (runSingleTrajectory gmat i t massKg maxDaysCap)) \<longleftrightarrow>
   parseTwoLineReport (gmat i t massKg maxDaysCap) \<noteq> None"
  by (cases "parseTwoLineReport (gmat i t massKg maxDaysCap)")
     (auto simp: runSingleTrajectory_def)

lemma loop_body_fail:
  "parseTwoLineReport (gmat i (trial_of lib i) massKg maxDaysCap) = None \<Longrightarrow>
   localBest (loop_body lib gmat rank massKg maxDaysCap i st) = localBest st \<and>
   trace (loop_body lib gmat rank massKg maxDaysCap i st) =
     trace st @ [EngineRun i (trial_of lib i), Warn i]"
  by (simp add: loop_body_def trial_of_def case_prod_beta runSingleTrajectory_fail)

lemma loop_body_ok:
  "parseTwoLineReport (gmat i (trial_of lib i) massKg maxDaysCap) =
     Some (startA1, startAlt, endA1, endAlt) \<Longrightarrow>
   r = \<lparr>id_run = i, lifetime_days = endA1 - startA1, end_alt_km = endAlt,
        trial = trial_of lib i, ok = True\<rparr> \<Longrightarrow>
   localBest (loop_body lib gmat rank massKg maxDaysCap i st) = keepBest (localBest st) r \<and>
   trace (loop_body lib gmat rank massKg maxDaysCap i st) =
     trace st @ [EngineRun i (trial_of lib i), PrintResult rank r]"
  by (simp add: loop_body_def trial_of_def case_prod_beta runSingleTrajectory_ok)

lemma worker_loop_invariant:
  assumes run: "worker_loop lib gmat numSimulations rank size' massKg maxDaysCap i st = Some (Inr st')"
    and init: "P st"
    and step: "\<And>j s. P s \<Longrightarrow> P (loop_body lib gmat rank massKg maxDaysCap j s)"
  shows "P st'"
proof -
  define Q where "Q = (\<lambda>(l :: 'a libc) (g :: engine) (N :: int) (r :: int) (W :: int)
      (m :: real) (c :: real) (i :: int) (s :: 'a wstate) (y :: fault + 'a wstate).
      \<forall>s'. y = Inr s' \<longrightarrow> P s \<longrightarrow> (\<forall>j t. P t \<longrightarrow> P (loop_body l g r m c j t)) \<longrightarrow> P s')"
  have "Q lib gmat numSimulations rank size' massKg maxDaysCap i st (Inr st')"
  proof (rule worker_loop.raw_induct [where P = Q, OF _ run])
    fix f :: "'a libc \<Rightarrow> engine \<Rightarrow> int \<Rightarrow> int \<Rightarrow> int \<Rightarrow> real \<Rightarrow> real \<Rightarrow> int \<Rightarrow> 'a wstate
        \<Rightarrow> (fault + 'a wstate) option"
      and l g N r W m c i s y
    assume IH: "\<And>l g N r W m c i s y. f l g N r W m c i s = Some y \<Longrightarrow> Q l g N r W m c i s y"
      and body: "(if i < N
          then if INT_MAX < GLOBAL_SEED + i then Some (Inl IntOverflow)
               else if INT_MAX < i + W \<or> i + W < INT_MIN then Some (Inl IntOverflow)
                    else f l g N r W m c (i + W) (loop_body l g r m c i s)
          else Some (Inr s)) = Some y"
    show "Q l g N r W m c i s y"
      unfolding Q_def
    proof (intro allI impI)
      fix s'
      assume y: "y = Inr s'" and P: "P s"
        and st: "\<forall>j t. P t \<longrightarrow> P (loop_body l g r m c j t)"
      show "P s'"
      proof (cases "i < N")
        case False
        with body y P show ?thesis by simp
      next
        case True
        show ?thesis
        proof (cases "INT_MAX < GLOBAL_SEED + i \<or> INT_MAX < i + W \<or> i + W < INT_MIN")
          case ov: True
          with True body y show ?thesis by (simp split: if_splits)
        next
          case False
          with True body have "f l g N r W m c (i + W) (loop_body l g r m c i s) = Some y"
            by simp
          from IH [OF this] have "Q l g N r W m c (i + W) (loop_body l g r m c i s) y" .
          with y P st show ?thesis unfolding Q_def by blast
        qed
      qed
    qed
  qed
  with init step show ?thesis unfolding Q_def by blast
qed

lemma stride_indices_Nil: "N \<le> i \<Longrightarrow> 1 \<le> W \<Longrightarrow> stride_indices i N W = []"
proof -
  assume a: "N \<le> i" "1 \<le> W"
  then have "N - i + W - 1 \<le> W - 1" and "0 < W" by simp_all
  then have "(N - i + W - 1) div W \<le> (W - 1) div W" by (rule zdiv_mono1)
  also have "(W - 1) div W = 0" using a by (simp add: div_pos_pos_trivial)
  finally show ?thesis by (simp add: stride_indices_def)
qed

lemma stride_indices_Cons:
  assumes "i < N" and "1 \<le> W"
  shows "stride_indices i N W = i # stride_indices (i + W) N W"
proof -
  let ?q = "(N - i - 1) div W"
  have q0: "0 \<le> ?q" using assms by (simp add: pos_imp_zdiv_nonneg_iff)
  have "(N - i + W - 1) div W = (N - i - 1 + W) div W" by (simp add: algebra_simps)
  also have "\<dots> = ?q + 1" using assms by simp
  finally have c1: "nat ((N - i + W - 1) div W) = Suc (nat ?q)"
    using q0 by (simp add: nat_add_distrib)
  have c2: "nat ((N - (i + W) + W - 1) div W) = nat ?q" by (simp add: algebra_simps)
  show ?thesis
    unfolding stride_indices_def c1 c2
    by (simp add: map_upt_Suc algebra_simps del: upt_Suc)
qed

lemma set_stride_indices:
  assumes "1 \<le> W"
  shows "set (stride_indices i N W) = {j. i \<le> j \<and> j < N \<and> (j - i) mod W = 0}"
proof (induction "nat (N - i)" arbitrary: i rule: less_induct)
  case less
  show ?case
  proof (cases "i < N")
    case False
    with assms show ?thesis by (auto simp: stride_indices_Nil)
  next
    case True
    have IH: "set (stride_indices (i + W) N W) = {j. i + W \<le> j \<and> j < N \<and> (j - (i + W)) mod W = 0}"
      by (rule less) (use True assms in simp)
    have m: "(j - (i + W)) mod W = (j - i) mod W" for j
      by (simp add: diff_diff_eq [symmetric])
    have far: "i + W \<le> j" if "i \<le> j" "j \<noteq> i" "(j - i) mod W = 0" for j
    proof -
      from that have "W dvd j - i" and "0 < j - i" by auto
      then have "W \<le> j - i" by (rule zdvd_imp_le)
      then show ?thesis by simp
    qed
    have "set (stride_indices i N W) = insert i {j. i + W \<le> j \<and> j < N \<and> (j - i) mod W = 0}"
      by (simp add: stride_indices_Cons [OF True assms] IH m)
    also have "\<dots> = {j. i \<le> j \<and> j < N \<and> (j - i) mod W = 0}"
      using True assms far by auto
    finally show ?thesis .
  qed
qed

lemma set_stride_indices_mod:
  assumes "1 \<le> W" and "0 \<le> r" and "r < W"
  shows "set (stride_indices r N W) = {j. 0 \<le> j \<and> j < N \<and> j mod W = r}"
proof -
  have e: "(r \<le> j \<and> (j - r) mod W = 0) \<longleftrightarrow> (0 \<le> j \<and> j mod W = r)" for j
  proof
    assume a: "r \<le> j \<and> (j - r) mod W = 0"
    then have "W dvd j - r" by auto
    then have "j mod W = r mod W" by (simp add: mod_eq_dvd_iff)
    with assms a show "0 \<le> j \<and> j mod W = r" by simp
  next
    assume a: "0 \<le> j \<and> j mod W = r"
    then have "j mod W = r mod W" using assms by simp
    then have "W dvd j - r" by (simp add: mod_eq_dvd_iff)
    then have z: "(j - r) mod W = 0" by auto
    from a have j0: "0 \<le> j" and jm: "j mod W = r" by simp_all
    from j0 have "j mod W \<le> j" by (rule zmod_le_nonneg_dividend)
    with jm have "r \<le> j" by simp
    with z show "r \<le> j \<and> (j - r) mod W = 0" by simp
  qed
  have "(r \<le> j \<and> j < N \<and> (j - r) mod W = 0) \<longleftrightarrow> (0 \<le> j \<and> j < N \<and> j mod W = r)" for j
    using e [of j] by argo
  then show ?thesis by (simp only: set_stride_indices [OF assms(1)])
qed

lemma set_stride_indices_ex:
  assumes "1 \<le> W"
  shows "set (stride_indices r N W) = {j. j < N \<and> (\<exists>k::nat. j = r + int k * W)}"
proof -
  have e: "(r \<le> j \<and> (j - r) mod W = 0) \<longleftrightarrow> (\<exists>k::nat. j = r + int k * W)" for j
  proof
    assume a: "r \<le> j \<and> (j - r) mod W = 0"
    then have "j - r = (j - r) div W * W" by auto
    moreover have "0 \<le> (j - r) div W" using a assms by (simp add: pos_imp_zdiv_nonneg_iff)
    ultimately have "j = r + int (nat ((j - r) div W)) * W" by simp
    then show "\<exists>k::nat. j = r + int k * W" ..
  next
    assume "\<exists>k::nat. j = r + int k * W"
    then obtain k :: nat where "j = r + int k * W" ..
    with assms show "r \<le> j \<and> (j - r) mod W = 0" by simp
  qed
  have "(r \<le> j \<and> j < N \<and> (j - r) mod W = 0) \<longleftrightarrow> (j < N \<and> (\<exists>k::nat. j = r + int k * W))" for j
    using e [of j] by argo
  then show ?thesis by (simp only: set_stride_indices [OF assms])
qed

lemma sorted_stride_indices:
  assumes "1 \<le> W"
  shows "sorted_wrt (<) (stride_indices r N W)"
proof -
  have "sorted_wrt (\<lambda>x y. r + int x * W < r + int y * W) [0 ..< n]" for n
    by (rule sorted_wrt_mono_rel [OF _ sorted_wrt_upt]) (use assms in simp)
  then show ?thesis by (simp add: stride_indices_def sorted_wrt_map)
qed

lemma stride_union:
  assumes "1 \<le> W"
  shows "(\<Union>r\<in>{0..<W}. set (stride_indices r N W)) = {0..<N}"
proof -
  have "(\<Union>r\<in>{0..<W}. {j. 0 \<le> j \<and> j < N \<and> j mod W = r}) = {0..<N}"
    using assms by auto
  moreover have "(\<Union>r\<in>{0..<W}. set (stride_indices r N W)) =
      (\<Union>r\<in>{0..<W}. {j. 0 \<le> j \<and> j < N \<and> j mod W = r})"
    using assms by (simp add: set_stride_indices_mod)
  ultimately show ?thesis by simp
qed

lemma stride_disjoint:
  assumes "1 \<le> W" "0 \<le> r" "r < W" "0 \<le> r'" "r' < W" "r \<noteq> r'"
  shows "set (stride_indices r N W) \<inter> set (stride_indices r' N W) = {}"
  using assms by (auto simp: set_stride_indices_mod)

lemma worker_loop_total:
  assumes "1 \<le> W" and "N + W \<le> INT_MAX + 1" and "N + GLOBAL_SEED \<le> INT_MAX + 1"
    and "INT_MIN \<le> i"
  shows "worker_loop lib gmat N rank W m c i st =
     Some (Inr (foldl (\<lambda>s j. loop_body lib gmat rank m c j s) st (stride_indices i N W)))"
  using assms(4)
proof (induction "nat (N - i)" arbitrary: i st rule: less_induct)
  case less
  show ?case
  proof (cases "i < N")
    case False
    with assms(1) show ?thesis
      by (subst worker_loop.simps) (simp add: stride_indices_Nil)
  next
    case True
    have IH: "worker_loop lib gmat N rank W m c (i + W) (loop_body lib gmat rank m c i st) =
      Some (Inr (foldl (\<lambda>s j. loop_body lib gmat rank m c j s)
         (loop_body lib gmat rank m c i st) (stride_indices (i + W) N W)))"
      by (rule less) (use True assms less.prems in simp_all)
    have no1: "\<not> INT_MAX < GLOBAL_SEED + i" using True assms(3) by simp
    have no2: "\<not> (INT_MAX < i + W \<or> i + W < INT_MIN)"
      using True assms less.prems by simp
    have step: "worker_loop lib gmat N rank W m c i st =
        worker_loop lib gmat N rank W m c (i + W) (loop_body lib gmat rank m c i st)"
      by (subst worker_loop.simps) (simp only: True no1 no2 if_True if_False)
    show ?thesis
      by (simp only: step IH stride_indices_Cons [OF True assms(1)] foldl_Cons)
  qed
qed

subsection \<open>The parser\<close>

lemmas parser_defs =
  parseTwoLineReport_def getline_def read_pair_def read_double_def scan_sign_def
  scan_fraction_def scan_exponent_def isspace_def isdigit_def dec_val_def digit_val_def
  DBL_OVERFLOW_def

lemma text_lines_unfold:
  "text_lines s =
     (if s = [] then []
      else takeWhile (\<lambda>c. c \<noteq> CHR 0x0A) s # text_lines (drop 1 (dropWhile (\<lambda>c. c \<noteq> CHR 0x0A) s)))"
proof -
  have "split_lines cur s =
     (if cur @ s = [] then []
      else (cur @ takeWhile (\<lambda>c. c \<noteq> CHR 0x0A) s) #
           split_lines [] (drop 1 (dropWhile (\<lambda>c. c \<noteq> CHR 0x0A) s)))" for cur
    by (induction s arbitrary: cur) simp_all
  from this [of "[]"] show ?thesis by (simp add: text_lines_def)
qed

lemma getline_text_lines:
  "getline s =
     (case text_lines s of
        [] \<Rightarrow> None
      | l # ls \<Rightarrow> Some (l, drop 1 (dropWhile (\<lambda>c. c \<noteq> CHR 0x0A) s)))"
  by (subst text_lines_unfold) (simp add: getline_def)

lemma text_lines_rest:
  "text_lines s = l # ls \<Longrightarrow> text_lines (drop 1 (dropWhile (\<lambda>c. c \<noteq> CHR 0x0A) s)) = ls"
  by (subst (asm) text_lines_unfold) (simp split: if_splits)

lemma read_pair_Some_iff:
  "read_pair l = Some (a, b) \<longleftrightarrow>
   (\<exists>r r'. read_double l = Some (a, r) \<and> read_double r = Some (b, r'))"
  by (auto simp: read_pair_def split: option.splits)

lemma two_numeric_tokens_iff: "two_numeric_tokens l \<longleftrightarrow> read_pair l \<noteq> None"
  by (auto simp: two_numeric_tokens_def read_pair_def split: option.splits)

lemma parseTwoLineReport_lines:
  "parseTwoLineReport (Some content) =
     (case text_lines content of
        l1 # l2 # ls \<Rightarrow>
          (case read_pair l1 of
             None \<Rightarrow> None
           | Some (a, b) \<Rightarrow>
               (case read_pair l2 of None \<Rightarrow> None | Some (c, d) \<Rightarrow> Some (a, b, c, d)))
      | _ \<Rightarrow> None)"
proof (cases "text_lines content")
  case Nil
  then show ?thesis by (simp add: parseTwoLineReport_def getline_text_lines)
next
  case (Cons l1 ls1)
  note c1 = this
  have r1: "text_lines (drop 1 (dropWhile (\<lambda>c. c \<noteq> CHR 0x0A) content)) = ls1"
    using c1 by (rule text_lines_rest)
  show ?thesis
  proof (cases ls1)
    case Nil
    with c1 r1 show ?thesis
      by (simp add: parseTwoLineReport_def getline_text_lines split: option.splits)
  next
    case (Cons l2 ls)
    with c1 r1 show ?thesis
      by (simp add: parseTwoLineReport_def getline_text_lines split: option.splits)
  qed
qed

lemma parseTwoLineReport_well_formed:
  "parseTwoLineReport rep \<noteq> None \<longleftrightarrow>
   (\<exists>content. rep = Some content \<and> well_formed_report content)"
proof (cases rep)
  case None
  then show ?thesis by (simp add: parseTwoLineReport_def)
next
  case (Some content)
  then show ?thesis
    by (auto simp: parseTwoLineReport_lines well_formed_report_def two_numeric_tokens_iff
        split: list.splits option.splits)
qed

lemma not_well_formed_iff:
  "\<not> well_formed_report content \<longleftrightarrow>
   length (text_lines content) < 2 \<or> \<not> two_numeric_tokens (text_lines content ! 0) \<or>
   \<not> two_numeric_tokens (text_lines content ! 1)"
  by (auto simp: well_formed_report_def split: list.splits)

subsection \<open>The generator\<close>

text \<open>
  With a \<^verbatim>\<open>rand\<close> that keeps to its range from 0 to \<^verbatim>\<open>RAND_MAX\<close>, both included, the
  altitude lies between 500 and 1000 and the drag coefficient between 2 and the
  double 2.6, all four bounds included; the area-to-mass ratio lies between the
  doubles 0.005 and 0.049999999999999996, which is below the double 0.05.
\<close>

lemma urand_range:
  assumes "0 < RAND_MAX lib"
    and "\<forall>s. 0 \<le> fst (rand lib s) \<and> fst (rand lib s) \<le> RAND_MAX lib"
  shows "0 \<le> fst (urand lib s) \<and> fst (urand lib s) \<le> 1"
proof -
  let ?q = "real_of_int (fst (rand lib s)) / real_of_int (RAND_MAX lib)"
  from assms have "0 \<le> ?q" and "?q \<le> 1" by simp_all
  then have "fl 0 \<le> fl ?q" and "fl ?q \<le> fl 1" by (simp_all only: fl_mono)
  then show ?thesis by (simp add: urand_def case_prod_beta fl_zero fl_consts)
qed

lemma trial_ranges:
  assumes "0 < RAND_MAX lib"
    and "\<forall>s. 0 \<le> fst (rand lib s) \<and> fst (rand lib s) \<le> RAND_MAX lib"
  shows "500 \<le> h0_km (trial_of lib i) \<and> h0_km (trial_of lib i) \<le> 1000 \<and>
     2 \<le> Cd (trial_of lib i) \<and> Cd (trial_of lib i) \<le> fl (26 / 10) \<and>
     fl (5 / 1000) \<le> A2M (trial_of lib i) \<and> A2M (trial_of lib i) < fl (5 / 100)"
proof -
  let ?s0 = "srand lib (nat ((GLOBAL_SEED + i) mod 2 ^ 32))"
  let ?s1 = "snd (urand lib ?s0)"
  let ?s2 = "snd (urand lib ?s1)"
  let ?u1 = "fst (urand lib ?s0)" and ?u2 = "fst (urand lib ?s1)" and ?u3 = "fst (urand lib ?s2)"
  note r = urand_range [OF assms]
  have h: "500 \<le> fl (500 + fl (500 * ?u1)) \<and> fl (500 + fl (500 * ?u1)) \<le> 1000"
  proof -
    from r [of ?s0] have "0 \<le> 500 * ?u1" and "500 * ?u1 \<le> 500" by simp_all
    then have "fl 0 \<le> fl (500 * ?u1)" and "fl (500 * ?u1) \<le> fl 500" by (simp_all only: fl_mono)
    then have "500 \<le> 500 + fl (500 * ?u1)" and "500 + fl (500 * ?u1) \<le> 1000"
      by (simp_all add: fl_zero fl_consts)
    then have "fl 500 \<le> fl (500 + fl (500 * ?u1))" and "fl (500 + fl (500 * ?u1)) \<le> fl 1000"
      by (simp_all only: fl_mono)
    then show ?thesis by (simp add: fl_consts)
  qed
  have c: "2 \<le> fl (2 + fl (fl (6 / 10) * ?u2)) \<and> fl (2 + fl (fl (6 / 10) * ?u2)) \<le> fl (26 / 10)"
  proof -
    let ?k = "5404319552844595 / 2 ^ 53 :: real"
    from r [of ?s1] have "0 \<le> ?k * ?u2" and "?k * ?u2 \<le> ?k"
      by (simp_all add: mult_left_le)
    then have "fl 0 \<le> fl (?k * ?u2)" and "fl (?k * ?u2) \<le> fl ?k" by (simp_all only: fl_mono)
    then have "2 \<le> 2 + fl (?k * ?u2)" and "2 + fl (?k * ?u2) \<le> 2 + ?k"
      by (simp_all only: fl_zero fl_6_10_again)
    then have "fl 2 \<le> fl (2 + fl (?k * ?u2))" and "fl (2 + fl (?k * ?u2)) \<le> fl (2 + ?k)"
      by (simp_all only: fl_mono)
    then show ?thesis by (simp only: fl_small_consts(1) fl_2_6 fl_26_10 fl_6_10)
  qed
  have a: "fl (5 / 1000) \<le> fl (fl (5 / 1000) + fl (fl (45 / 1000) * ?u3)) \<and>
      fl (fl (5 / 1000) + fl (fl (45 / 1000) * ?u3)) < fl (5 / 100)"
  proof -
    let ?k = "3242591731706757 / 2 ^ 56 :: real" and ?m = "5764607523034235 / 2 ^ 60 :: real"
    from r [of ?s2] have "0 \<le> ?k * ?u3" and "?k * ?u3 \<le> ?k"
      by (simp_all add: mult_left_le)
    then have "fl 0 \<le> fl (?k * ?u3)" and "fl (?k * ?u3) \<le> fl ?k" by (simp_all only: fl_mono)
    then have "?m \<le> ?m + fl (?k * ?u3)" and "?m + fl (?k * ?u3) \<le> ?m + ?k"
      by (simp_all only: fl_zero fl_small_consts(5))
    then have "fl ?m \<le> fl (?m + fl (?k * ?u3))" and "fl (?m + fl (?k * ?u3)) \<le> fl (?m + ?k)"
      by (simp_all only: fl_mono)
    then have "?m \<le> fl (?m + fl (?k * ?u3))"
      and "fl (?m + fl (?k * ?u3)) \<le> 7205759403792793 / 2 ^ 57"
      by (simp_all only: fl_small_consts(3,6))
    then show ?thesis by (simp only: fl_small_consts(2,4,7)) simp
  qed
  from h c a show ?thesis
    by (simp add: trial_of_def generateRandomLEO_def case_prod_beta)
qed

subsection \<open>What the loop does\<close>

lemma trace_loop_body:
  "\<exists>evs. trace (loop_body lib gmat rank massKg maxDaysCap i st) =
           trace st @ EngineRun i (trial_of lib i) # evs \<and>
         (\<forall>j t. EngineRun j t \<notin> set evs) \<and> (\<forall>r. BestRun r \<notin> set evs)"
proof (cases "parseTwoLineReport (gmat i (trial_of lib i) massKg maxDaysCap)")
  case None
  from loop_body_fail [of gmat i lib massKg maxDaysCap rank st, OF this] show ?thesis by simp
next
  case (Some q)
  obtain a b c d where "q = (a, b, c, d)" by (cases q) auto
  with Some loop_body_ok [of gmat i lib massKg maxDaysCap a b c d _ rank st]
  show ?thesis by simp
qed

lemma engine_runs_none: "\<forall>j t. EngineRun j t \<notin> set evs \<Longrightarrow> engine_runs evs = []"
  by (induction evs rule: engine_runs.induct) auto

lemma engine_runs_loop_body:
  "engine_runs (trace (loop_body lib gmat rank massKg maxDaysCap i st)) =
   engine_runs (trace st) @ [i]"
proof -
  from trace_loop_body [of lib gmat rank massKg maxDaysCap i st]
  obtain evs where "trace (loop_body lib gmat rank massKg maxDaysCap i st) =
      trace st @ EngineRun i (trial_of lib i) # evs"
    and "\<forall>j t. EngineRun j t \<notin> set evs"
    by blast
  then show ?thesis by (simp add: engine_runs_append engine_runs_none)
qed

lemma engine_runs_foldl:
  "engine_runs (trace (foldl (\<lambda>s j. loop_body lib gmat rank massKg maxDaysCap j s) st js)) =
   engine_runs (trace st) @ js"
  by (induction js arbitrary: st) (simp_all add: engine_runs_loop_body)

lemma trials_loop_body:
  assumes "\<forall>j t. EngineRun j t \<in> set (trace st) \<longrightarrow> t = trial_of lib j"
  shows "\<forall>j t. EngineRun j t \<in> set (trace (loop_body lib gmat rank massKg maxDaysCap i st)) \<longrightarrow>
           t = trial_of lib j"
proof -
  from trace_loop_body [of lib gmat rank massKg maxDaysCap i st]
  obtain evs where "trace (loop_body lib gmat rank massKg maxDaysCap i st) =
      trace st @ EngineRun i (trial_of lib i) # evs"
    and "\<forall>j t. EngineRun j t \<notin> set evs"
    by blast
  with assms show ?thesis by auto
qed

lemma no_best_loop_body:
  assumes "\<forall>r. BestRun r \<notin> set (trace st)"
  shows "\<forall>r. BestRun r \<notin> set (trace (loop_body lib gmat rank massKg maxDaysCap i st))"
proof -
  from trace_loop_body [of lib gmat rank massKg maxDaysCap i st]
  obtain evs where "trace (loop_body lib gmat rank massKg maxDaysCap i st) =
      trace st @ EngineRun i (trial_of lib i) # evs"
    and "\<forall>r. BestRun r \<notin> set evs"
    by blast
  with assms show ?thesis by auto
qed

lemma runMonteCarloDecay_trials:
  assumes run: "runMonteCarloDecay lib gmat rng0 inbox numSimulations rank size' massKg maxDaysCap =
      Some (Inr tr)"
    and ev: "EngineRun i t \<in> set tr"
  shows "t = trial_of lib i"
proof -
  let ?st0 = "\<lparr>rng = rng0, localBest = emptyResult, trace = []\<rparr>"
  from run obtain st where
    loop: "worker_loop lib gmat numSimulations rank size' massKg maxDaysCap rank ?st0 = Some (Inr st)"
    and tr: "tr = trace st @ [report_best (the (recv_loop size' 1 inbox (localBest st)))] \<or>
             tr = trace st @ [Send (localBest st)]"
    by (auto simp: runMonteCarloDecay_def split: option.splits sum.splits if_splits)
  have "\<forall>j t. EngineRun j t \<in> set (trace st) \<longrightarrow> t = trial_of lib j"
    by (rule worker_loop_invariant [OF loop]) (simp, rule trials_loop_body)
  with tr ev show ?thesis by (auto simp: report_best_def split: if_splits)
qed

lemma worker_loop_overflow:
  assumes "1 \<le> W" and "i \<le> j" and "j < N" and "(j - i) mod W = 0"
    and "INT_MAX < GLOBAL_SEED + j \<or> INT_MAX < j + W"
  shows "worker_loop lib gmat N rank W m c i st = Some (Inl IntOverflow)"
  using assms(2,4)
proof (induction "nat (j - i)" arbitrary: i st rule: less_induct)
  case less
  from less.prems assms(3) have iN: "i < N" by simp
  show ?case
  proof (cases "INT_MAX < GLOBAL_SEED + i \<or> INT_MAX < i + W \<or> i + W < INT_MIN")
    case True
    with iN show ?thesis
      by (subst worker_loop.simps) auto
  next
    case False
    with assms(5) have "i \<noteq> j" by auto
    with less.prems have "W dvd j - i" and "0 < j - i" by auto
    then have "W \<le> j - i" by (rule zdvd_imp_le)
    then have le: "i + W \<le> j" by simp
    have m: "(j - (i + W)) mod W = 0"
      using less.prems(2) by (simp add: diff_diff_eq [symmetric])
    have IH: "worker_loop lib gmat N rank W m c (i + W) (loop_body lib gmat rank m c i st) =
        Some (Inl IntOverflow)"
      by (rule less) (use le m assms(1) in simp_all)
    have step: "worker_loop lib gmat N rank W m c i st =
        worker_loop lib gmat N rank W m c (i + W) (loop_body lib gmat rank m c i st)"
    proof -
      from False have no1: "\<not> INT_MAX < GLOBAL_SEED + i"
        and no2: "\<not> (INT_MAX < i + W \<or> i + W < INT_MIN)" by simp_all
      show ?thesis
        by (subst worker_loop.simps) (simp only: iN no1 no2 if_True if_False)
    qed
    show ?thesis by (simp only: step IH)
  qed
qed

subsection \<open>Runs in which every report fails to parse\<close>

lemma foldl_loop_body_fail:
  assumes "\<forall>i t. parseTwoLineReport (gmat i t massKg maxDaysCap) = None"
  shows "localBest (foldl (\<lambda>s j. loop_body lib gmat rank massKg maxDaysCap j s) st js) =
           localBest st \<and>
         trace (foldl (\<lambda>s j. loop_body lib gmat rank massKg maxDaysCap j s) st js) =
           trace st @ concat (map (\<lambda>j. [EngineRun j (trial_of lib j), Warn j]) js)"
proof (induction js arbitrary: st)
  case Nil
  show ?case by simp
next
  case (Cons j js)
  from assms have "parseTwoLineReport (gmat j (trial_of lib j) massKg maxDaysCap) = None"
    by simp
  from loop_body_fail [of gmat j lib massKg maxDaysCap rank st, OF this] Cons [of
      "loop_body lib gmat rank massKg maxDaysCap j st"]
  show ?case by simp
qed

lemma recv_loop_all_invalid:
  assumes "\<forall>r\<in>set inbox. \<not> ok r" and "int (length inbox) = size' - 1"
  shows "recv_loop size' 1 inbox own = Some own"
proof -
  have "\<forall>r\<in>set (take (nat (size' - 1)) inbox). \<not> ok r"
    using assms(1) by (auto dest: in_set_takeD)
  then have "foldl keepBest own (take (nat (size' - 1)) inbox) = own"
    by (rule foldl_keepBest_all_invalid)
  with assms(2) show ?thesis by (simp add: recv_loop_foldl)
qed

section \<open>Properties of the comparator\<close>

text \<open>
  C3 (as stated: between valid results, the first is better iff its lifetime exceeds
  the other's by more than epsilon, or the lifetimes are within epsilon and its
  altitude is greater) fails where the rounded sum meets the lifetime.  The lifetimes
  are the doubles 84.06100000100001 and 84.061: the first exceeds the second by
  more than epsilon, but the sum of the second and epsilon rounds to the first, so
  neither lifetime test succeeds, the altitudes 600 and 900 decide, and the second
  result is the better one.
\<close>

theorem isBetter_exceeds_but_ties:
  "ok (mkResult 0 (5915267004388983 / 2 ^ 46) 600 True) \<and>
   ok (mkResult 1 (2957633502159307 / 2 ^ 45) 900 True) \<and>
   lifetime_days (mkResult 0 (5915267004388983 / 2 ^ 46) 600 True) >
     lifetime_days (mkResult 1 (2957633502159307 / 2 ^ 45) 900 True) + eps_default \<and>
   \<not> isBetter (mkResult 0 (5915267004388983 / 2 ^ 46) 600 True)
       (mkResult 1 (2957633502159307 / 2 ^ 45) 900 True) eps_default \<and>
   isBetter (mkResult 1 (2957633502159307 / 2 ^ 45) 900 True)
     (mkResult 0 (5915267004388983 / 2 ^ 46) 600 True) eps_default"
  using fl_84061 fl_84061_up
  by (simp add: isBetter_def mkResult_def eps_default_eq)

text \<open>
  C3, amended. For every pair of results: \<open>isBetter a b\<close> is false whenever \<open>a\<close> is not
  ok; it is true whenever \<open>a\<close> is ok and \<open>b\<close> is not; when both are ok it holds iff the
  lifetime of \<open>a\<close> is greater than the double sum of the lifetime of \<open>b\<close> and epsilon,
  or neither lifetime is greater than the double sum of the other and epsilon and
  the initial altitude of \<open>a\<close> is strictly greater.  For a lifetime of \<open>a\<close> that is a
  double, the first test holds iff the lifetime of \<open>a\<close> exceeds that of \<open>b\<close> by more
  than epsilon and is not the rounded sum itself.
\<close>

theorem isBetter_cases_rounded:
  "(\<not> ok a \<longrightarrow> \<not> isBetter a b eps_default) \<and>
   (ok a \<and> \<not> ok b \<longrightarrow> isBetter a b eps_default) \<and>
   (ok a \<and> ok b \<longrightarrow>
      (isBetter a b eps_default \<longleftrightarrow>
         lifetime_days a > fl (lifetime_days b + eps_default) \<or>
         (lifetime_tie a b \<and> h0_km (trial a) > h0_km (trial b)))) \<and>
   (fl (lifetime_days a) = lifetime_days a \<longrightarrow>
      (lifetime_days a > fl (lifetime_days b + eps_default) \<longleftrightarrow>
         lifetime_days a > lifetime_days b + eps_default \<and>
         lifetime_days a \<noteq> fl (lifetime_days b + eps_default)))"
proof -
  have c: "(isBetter a b eps_default \<longleftrightarrow>
         lifetime_days a > fl (lifetime_days b + eps_default) \<or>
         (lifetime_tie a b \<and> h0_km (trial a) > h0_km (trial b)))" if "ok a" "ok b"
    using that by (auto simp: isBetter_def lifetime_tie_def)
  have d: "lifetime_days a > fl (lifetime_days b + eps_default) \<longleftrightarrow>
         lifetime_days a > lifetime_days b + eps_default \<and>
         lifetime_days a \<noteq> fl (lifetime_days b + eps_default)"
    if dbl: "fl (lifetime_days a) = lifetime_days a"
  proof
    assume g: "fl (lifetime_days b + eps_default) < lifetime_days a"
    with dbl have "lifetime_days b + eps_default < lifetime_days a" by (rule above_rounded)
    with g show "lifetime_days a > lifetime_days b + eps_default \<and>
         lifetime_days a \<noteq> fl (lifetime_days b + eps_default)" by simp
  next
    assume h: "lifetime_days a > lifetime_days b + eps_default \<and>
         lifetime_days a \<noteq> fl (lifetime_days b + eps_default)"
    then have "fl (lifetime_days b + eps_default) \<le> fl (lifetime_days a)"
      by (simp add: fl_mono)
    with dbl h show "fl (lifetime_days b + eps_default) < lifetime_days a" by simp
  qed
  from c d show ?thesis by (simp add: isBetter_def)
qed

theorem isBetter_cases_rounded_witness:
  "\<not> ok (mkResult 0 86 700 False) \<and>
   \<not> isBetter (mkResult 0 86 700 False) (mkResult 1 84 600 True) eps_default \<and>
   ok (mkResult 1 84 600 True) \<and>
   isBetter (mkResult 1 84 600 True) (mkResult 0 86 700 False) eps_default \<and>
   ok (mkResult 2 84 650 True) \<and>
   lifetime_tie (mkResult 2 84 650 True) (mkResult 1 84 600 True) \<and>
   isBetter (mkResult 2 84 650 True) (mkResult 1 84 600 True) eps_default \<and>
   fl (lifetime_days (mkResult 3 86 500 True)) = lifetime_days (mkResult 3 86 500 True) \<and>
   lifetime_days (mkResult 3 86 500 True) > fl (lifetime_days (mkResult 1 84 600 True) + eps_default) \<and>
   isBetter (mkResult 3 86 500 True) (mkResult 1 84 600 True) eps_default"
  using isBetter_cases_rounded [of "mkResult 0 86 700 False" "mkResult 1 84 600 True"]
        isBetter_cases_rounded [of "mkResult 1 84 600 True" "mkResult 0 86 700 False"]
        isBetter_cases_rounded [of "mkResult 2 84 650 True" "mkResult 1 84 600 True"]
        isBetter_cases_rounded [of "mkResult 3 86 500 True" "mkResult 1 84 600 True"]
        fl_84 fl_86 fl_doubles(1,2)
  by (simp add: mkResult_def lifetime_tie_def eps_default_eq)

text \<open>
  C1 (as stated: transitivity on valid results) fails, because tying on lifetime is
  not transitive: three valid results with lifetimes 84, 84 + \<open>2 powr - 30\<close> and
  84 + \<open>2 powr - 29\<close> days and initial altitudes 900, 800 and 700 km.  The first beats
  the second and the second the third on altitude, both pairs tying on lifetime; the
  third beats the first on lifetime.
\<close>

theorem isBetter_not_transitive:
  "ok (mkResult 0 84 900 True) \<and>
   ok (mkResult 1 (84 + 1 / 2 ^ 30) 800 True) \<and>
   ok (mkResult 2 (84 + 1 / 2 ^ 29) 700 True) \<and>
   isBetter (mkResult 0 84 900 True) (mkResult 1 (84 + 1 / 2 ^ 30) 800 True) eps_default \<and>
   isBetter (mkResult 1 (84 + 1 / 2 ^ 30) 800 True)
            (mkResult 2 (84 + 1 / 2 ^ 29) 700 True) eps_default \<and>
   \<not> isBetter (mkResult 0 84 900 True) (mkResult 2 (84 + 1 / 2 ^ 29) 700 True) eps_default"
  using fl_84 fl_84_30 fl_84_29
  by (simp add: isBetter_def mkResult_def eps_default_eq)

text \<open>
  C1, amended. For valid results \<open>a\<close>, \<open>b\<close>, \<open>c\<close> whose lifetimes are doubles and among
  which tying on lifetime is transitive (when two of the three pairs tie, so does
  the third; in particular when no pair ties, or all do): if \<open>a\<close> is better than \<open>b\<close>
  and \<open>b\<close> is better than \<open>c\<close>, then \<open>a\<close> is better than \<open>c\<close>.
\<close>

theorem isBetter_trans_ties:
  assumes "ok a" and "ok b" and "ok c"
    and da: "fl (lifetime_days a) = lifetime_days a"
    and db: "fl (lifetime_days b) = lifetime_days b"
    and dc: "fl (lifetime_days c) = lifetime_days c"
    and t1: "lifetime_tie a b \<and> lifetime_tie b c \<longrightarrow> lifetime_tie a c"
    and t2: "lifetime_tie a b \<and> lifetime_tie a c \<longrightarrow> lifetime_tie b c"
    and t3: "lifetime_tie a c \<and> lifetime_tie b c \<longrightarrow> lifetime_tie a b"
    and ab: "isBetter a b eps_default" and bc: "isBetter b c eps_default"
  shows "isBetter a c eps_default"
proof -
  let ?gt = "\<lambda>x y. fl (lifetime_days y + eps_default) < lifetime_days x"
  have iff: "isBetter x y eps_default \<longleftrightarrow>
      ?gt x y \<or> (lifetime_tie x y \<and> h0_km (trial y) < h0_km (trial x))"
    if "ok x" "ok y" for x y
    using that by (auto simp: isBetter_def lifetime_tie_def)
  have gt_less: "lifetime_days y < lifetime_days x"
    if "?gt x y" "fl (lifetime_days y) = lifetime_days y" for x y
    using that fl_add_eps_ge [of "lifetime_days y"] by simp
  have gt_trans: "?gt x z"
    if "?gt x y" "?gt y z" "fl (lifetime_days y) = lifetime_days y" for x y z
    using that gt_less [of y x] by simp
  have tie_not: "\<not> ?gt x y \<and> \<not> ?gt y x" if "lifetime_tie x y" for x y
    using that by (simp add: lifetime_tie_def)
  have tie_or: "?gt x y \<or> ?gt y x \<or> lifetime_tie x y" for x y
    by (auto simp: lifetime_tie_def)
  from ab assms(1,2) have ab': "?gt a b \<or> (lifetime_tie a b \<and> h0_km (trial b) < h0_km (trial a))"
    by (simp add: iff)
  from bc assms(2,3) have bc': "?gt b c \<or> (lifetime_tie b c \<and> h0_km (trial c) < h0_km (trial b))"
    by (simp add: iff)
  have "?gt a c \<or> (lifetime_tie a c \<and> h0_km (trial c) < h0_km (trial a))"
  proof (cases "?gt a b")
    case gab: True
    show ?thesis
    proof (cases "?gt b c")
      case True
      with gab db show ?thesis using gt_trans [of b a c] by simp
    next
      case False
      with bc' have tbc: "lifetime_tie b c" by simp
      have "\<not> ?gt c a"
      proof
        assume "?gt c a"
        with gab da have "?gt c b" using gt_trans [of a c b] by simp
        with tbc show False by (simp add: lifetime_tie_def)
      qed
      moreover have "\<not> lifetime_tie a c"
      proof
        assume "lifetime_tie a c"
        with tbc t3 have "lifetime_tie a b" by simp
        with gab show False by (simp add: lifetime_tie_def)
      qed
      ultimately show ?thesis using tie_or [of c a] by simp
    qed
  next
    case nab: False
    with ab' have tab: "lifetime_tie a b" and h1: "h0_km (trial b) < h0_km (trial a)"
      by simp_all
    show ?thesis
    proof (cases "?gt b c")
      case gbc: True
      have "\<not> ?gt c a"
      proof
        assume "?gt c a"
        with gbc dc have "?gt b a" using gt_trans [of c b a] by simp
        with tab show False by (simp add: lifetime_tie_def)
      qed
      moreover have "\<not> lifetime_tie a c"
      proof
        assume "lifetime_tie a c"
        with tab t2 have "lifetime_tie b c" by simp
        with gbc show False by (simp add: lifetime_tie_def)
      qed
      ultimately show ?thesis using tie_or [of c a] by simp
    next
      case False
      with bc' have tbc: "lifetime_tie b c" and h2: "h0_km (trial c) < h0_km (trial b)"
        by simp_all
      from tab tbc t1 have "lifetime_tie a c" by simp
      with h1 h2 show ?thesis by simp
    qed
  qed
  with assms(1,3) show ?thesis by (simp add: iff)
qed

theorem isBetter_trans_ties_witness:
  "ok (mkResult 0 86 700 True) \<and> ok (mkResult 1 84 900 True) \<and> ok (mkResult 2 84 800 True) \<and>
   fl (lifetime_days (mkResult 0 86 700 True)) = lifetime_days (mkResult 0 86 700 True) \<and>
   fl (lifetime_days (mkResult 1 84 900 True)) = lifetime_days (mkResult 1 84 900 True) \<and>
   \<not> lifetime_tie (mkResult 0 86 700 True) (mkResult 1 84 900 True) \<and>
   lifetime_tie (mkResult 1 84 900 True) (mkResult 2 84 800 True) \<and>
   \<not> lifetime_tie (mkResult 0 86 700 True) (mkResult 2 84 800 True) \<and>
   isBetter (mkResult 0 86 700 True) (mkResult 1 84 900 True) eps_default \<and>
   isBetter (mkResult 1 84 900 True) (mkResult 2 84 800 True) eps_default \<and>
   isBetter (mkResult 0 86 700 True) (mkResult 2 84 800 True) eps_default \<and>
   lifetime_tie (mkResult 3 84 900 True) (mkResult 4 (84 + 1 / 2 ^ 31) 800 True) \<and>
   lifetime_tie (mkResult 4 (84 + 1 / 2 ^ 31) 800 True) (mkResult 5 (84 + 1 / 2 ^ 30) 700 True) \<and>
   lifetime_tie (mkResult 3 84 900 True) (mkResult 5 (84 + 1 / 2 ^ 30) 700 True) \<and>
   isBetter (mkResult 3 84 900 True) (mkResult 4 (84 + 1 / 2 ^ 31) 800 True) eps_default \<and>
   isBetter (mkResult 4 (84 + 1 / 2 ^ 31) 800 True) (mkResult 5 (84 + 1 / 2 ^ 30) 700 True)
     eps_default \<and>
   isBetter (mkResult 3 84 900 True) (mkResult 5 (84 + 1 / 2 ^ 30) 700 True) eps_default"
proof -
  let ?a = "mkResult 0 86 700 True" and ?b = "mkResult 1 84 900 True"
    and ?c = "mkResult 2 84 800 True"
  let ?p = "mkResult 3 84 900 True" and ?q = "mkResult 4 (84 + 1 / 2 ^ 31) 800 True"
    and ?r = "mkResult 5 (84 + 1 / 2 ^ 30) 700 True"
  have v: "ok ?a" "ok ?b" "ok ?c" "ok ?p" "ok ?q" "ok ?r"
    by (simp_all add: mkResult_def)
  have d: "fl (lifetime_days ?a) = lifetime_days ?a" "fl (lifetime_days ?b) = lifetime_days ?b"
    "fl (lifetime_days ?c) = lifetime_days ?c" "fl (lifetime_days ?p) = lifetime_days ?p"
    "fl (lifetime_days ?q) = lifetime_days ?q" "fl (lifetime_days ?r) = lifetime_days ?r"
    using fl_doubles by (simp_all add: mkResult_def)
  have n1: "\<not> lifetime_tie ?a ?b" and n2: "\<not> lifetime_tie ?a ?c"
    using fl_84 fl_86 by (simp_all add: lifetime_tie_def mkResult_def)
  have t: "lifetime_tie ?b ?c"
    using fl_84 by (simp add: lifetime_tie_def mkResult_def)
  have ab: "isBetter ?a ?b eps_default" and bc: "isBetter ?b ?c eps_default"
    using fl_84 fl_86 by (simp_all add: isBetter_def mkResult_def)
  have ac: "isBetter ?a ?c eps_default"
    by (rule isBetter_trans_ties [OF v(1,2,3) d(1,2,3) _ _ _ ab bc]) (use n1 n2 in simp_all)
  have t': "lifetime_tie ?p ?q" "lifetime_tie ?q ?r" "lifetime_tie ?p ?r"
    using fl_84 fl_84_31 fl_84_30 by (simp_all add: lifetime_tie_def mkResult_def)
  have pq: "isBetter ?p ?q eps_default" and qr: "isBetter ?q ?r eps_default"
    using fl_84 fl_84_31 fl_84_30 by (simp_all add: isBetter_def mkResult_def)
  have pr: "isBetter ?p ?r eps_default"
    by (rule isBetter_trans_ties [OF v(4,5,6) d(4,5,6) _ _ _ pq qr]) (use t' in simp_all)
  show ?thesis
    by (insert v(1,2,3) d(1,2) n1 t n2 ab bc ac t' pq qr pr) (intro conjI; assumption)
qed

section \<open>The reduction\<close>

text \<open>
  C2 (as stated: the fold gives the same global best in every order of arrival) fails.
  With the coordinator's own best of lifetime 84 days and altitude 900 km and two
  received records of lifetimes 84 + \<open>2 powr - 30\<close> and 84 + \<open>2 powr - 29\<close> days and
  altitudes 800 and 700 km, the order of arrival decides the result: the second
  record when the first arrives first, the first record when the second arrives
  first.
\<close>

theorem fold_order_dependent:
  "mset [mkResult 1 (84 + 1 / 2 ^ 30) 800 True, mkResult 2 (84 + 1 / 2 ^ 29) 700 True] =
   mset [mkResult 2 (84 + 1 / 2 ^ 29) 700 True, mkResult 1 (84 + 1 / 2 ^ 30) 800 True] \<and>
   foldl keepBest (mkResult 0 84 900 True)
     [mkResult 1 (84 + 1 / 2 ^ 30) 800 True, mkResult 2 (84 + 1 / 2 ^ 29) 700 True]
     = mkResult 2 (84 + 1 / 2 ^ 29) 700 True \<and>
   foldl keepBest (mkResult 0 84 900 True)
     [mkResult 2 (84 + 1 / 2 ^ 29) 700 True, mkResult 1 (84 + 1 / 2 ^ 30) 800 True]
     = mkResult 1 (84 + 1 / 2 ^ 30) 800 True \<and>
   recv_loop 3 1 [mkResult 1 (84 + 1 / 2 ^ 30) 800 True, mkResult 2 (84 + 1 / 2 ^ 29) 700 True]
     (mkResult 0 84 900 True) = Some (mkResult 2 (84 + 1 / 2 ^ 29) 700 True) \<and>
   recv_loop 3 1 [mkResult 2 (84 + 1 / 2 ^ 29) 700 True, mkResult 1 (84 + 1 / 2 ^ 30) 800 True]
     (mkResult 0 84 900 True) = Some (mkResult 1 (84 + 1 / 2 ^ 30) 800 True) \<and>
   mkResult 2 (84 + 1 / 2 ^ 29) 700 True \<noteq> mkResult 1 (84 + 1 / 2 ^ 30) 800 True"
  using fl_84 fl_84_30 fl_84_29
  by (simp add: recv_loop_foldl keepBest_def isBetter_def mkResult_def eps_default_eq)

text \<open>
  C2, amended. For every list of records, every permutation of it and every initial
  accumulator, the lifetimes being doubles: if the comparator, on the accumulator
  and the records, is transitive and orders every two distinct valid records one way
  or the other, then folding either list with the rule "replace the accumulator by
  the incoming record iff the incoming record is better" gives the same global best;
  so does the receive loop of rank 0 on the two orders of arrival.
\<close>

theorem fold_order_independent:
  assumes perm: "mset xs = mset ys"
    and dbl: "\<forall>x\<in>insert init (set xs). fl (lifetime_days x) = lifetime_days x"
    and tr: "\<forall>x\<in>insert init (set xs). \<forall>y\<in>insert init (set xs). \<forall>z\<in>insert init (set xs).
      isBetter x y eps_default \<and> isBetter y z eps_default \<longrightarrow> isBetter x z eps_default"
    and tot: "\<forall>x\<in>insert init (set xs). \<forall>y\<in>insert init (set xs).
      ok x \<and> ok y \<and> x \<noteq> y \<longrightarrow> isBetter x y eps_default \<or> isBetter y x eps_default"
  shows "foldl keepBest init xs = foldl keepBest init ys \<and>
         recv_loop (1 + int (length xs)) 1 xs init = recv_loop (1 + int (length ys)) 1 ys init"
proof -
  let ?S = "insert init (set xs)"
  let ?r1 = "foldl keepBest init xs" and ?r2 = "foldl keepBest init ys"
  from perm have sets: "set ys = set xs" by (metis set_mset_mset)
  have m1: "?r1 \<in> ?S" by (rule foldl_keepBest_mem)
  have m2: "?r2 \<in> ?S" using foldl_keepBest_mem [of init ys] sets by simp
  have max1: "\<forall>y\<in>?S. \<not> isBetter y ?r1 eps_default"
    by (rule foldl_keepBest_maximal [OF tr dbl])
  have max2: "\<forall>y\<in>?S. \<not> isBetter y ?r2 eps_default"
  proof -
    from tr have tr': "\<forall>x\<in>insert init (set ys). \<forall>y\<in>insert init (set ys).
        \<forall>z\<in>insert init (set ys).
        isBetter x y eps_default \<and> isBetter y z eps_default \<longrightarrow> isBetter x z eps_default"
      by (simp only: sets)
    from dbl have dbl': "\<forall>x\<in>insert init (set ys). fl (lifetime_days x) = lifetime_days x"
      by (simp only: sets)
    from tr' dbl' have "\<forall>y\<in>insert init (set ys). \<not> isBetter y ?r2 eps_default"
      by (rule foldl_keepBest_maximal)
    then show ?thesis by (simp only: sets)
  qed
  from max1 m2 have n21: "\<not> isBetter ?r2 ?r1 eps_default" by blast
  from max2 m1 have n12: "\<not> isBetter ?r1 ?r2 eps_default" by blast
  have eq: "?r1 = ?r2"
  proof (cases "ok ?r1")
    case True
    show ?thesis
    proof (cases "ok ?r2")
      case r2: True
      with True tot m1 m2 n12 n21 show ?thesis by blast
    next
      case False
      with True n12 show ?thesis using isBetter_invalid by blast
    qed
  next
    case False
    then have i1: "?r1 = init" by (rule foldl_keepBest_invalid)
    have "\<not> ok ?r2" using False n21 isBetter_invalid by blast
    then have "?r2 = init" by (rule foldl_keepBest_invalid)
    with i1 show ?thesis by simp
  qed
  from perm have "length xs = length ys" by (metis size_mset)
  with eq show ?thesis by (simp add: recv_loop_foldl)
qed

theorem fold_order_independent_witness:
  "mset [mkResult 1 84 800 True, mkResult 2 86 700 True] =
   mset [mkResult 2 86 700 True, mkResult 1 84 800 True] \<and>
   fl (lifetime_days (mkResult 0 84 900 True)) = lifetime_days (mkResult 0 84 900 True) \<and>
   fl (lifetime_days (mkResult 2 86 700 True)) = lifetime_days (mkResult 2 86 700 True) \<and>
   isBetter (mkResult 0 84 900 True) (mkResult 1 84 800 True) eps_default \<and>
   isBetter (mkResult 2 86 700 True) (mkResult 0 84 900 True) eps_default \<and>
   isBetter (mkResult 2 86 700 True) (mkResult 1 84 800 True) eps_default \<and>
   foldl keepBest (mkResult 0 84 900 True) [mkResult 1 84 800 True, mkResult 2 86 700 True] =
   foldl keepBest (mkResult 0 84 900 True) [mkResult 2 86 700 True, mkResult 1 84 800 True] \<and>
   recv_loop (1 + int (length [mkResult 1 84 800 True, mkResult 2 86 700 True])) 1
     [mkResult 1 84 800 True, mkResult 2 86 700 True] (mkResult 0 84 900 True) =
   recv_loop (1 + int (length [mkResult 2 86 700 True, mkResult 1 84 800 True])) 1
     [mkResult 2 86 700 True, mkResult 1 84 800 True] (mkResult 0 84 900 True)"
proof -
  let ?i = "mkResult 0 84 900 True" and ?x = "mkResult 1 84 800 True"
    and ?y = "mkResult 2 86 700 True"
  have p: "mset [?x, ?y] = mset [?y, ?x]" by simp
  have d: "fl (lifetime_days ?i) = lifetime_days ?i" "fl (lifetime_days ?x) = lifetime_days ?x"
    "fl (lifetime_days ?y) = lifetime_days ?y"
    using fl_doubles by (simp_all add: mkResult_def)
  have b: "isBetter ?i ?x eps_default" "isBetter ?y ?i eps_default" "isBetter ?y ?x eps_default"
    "\<not> isBetter ?x ?i eps_default" "\<not> isBetter ?i ?y eps_default" "\<not> isBetter ?x ?y eps_default"
    "\<not> isBetter ?i ?i eps_default" "\<not> isBetter ?x ?x eps_default" "\<not> isBetter ?y ?y eps_default"
    using fl_84 fl_86 by (simp_all add: isBetter_def mkResult_def)
  have dbl: "\<forall>x\<in>insert ?i (set [?x, ?y]). fl (lifetime_days x) = lifetime_days x"
    using d by simp
  have tr: "\<forall>x\<in>insert ?i (set [?x, ?y]). \<forall>y\<in>insert ?i (set [?x, ?y]).
      \<forall>z\<in>insert ?i (set [?x, ?y]).
      isBetter x y eps_default \<and> isBetter y z eps_default \<longrightarrow> isBetter x z eps_default"
    using b by simp
  have tot: "\<forall>x\<in>insert ?i (set [?x, ?y]). \<forall>y\<in>insert ?i (set [?x, ?y]).
      ok x \<and> ok y \<and> x \<noteq> y \<longrightarrow> isBetter x y eps_default \<or> isBetter y x eps_default"
    using b by simp
  note w = fold_order_independent [OF p dbl tr tot]
  show ?thesis
    by (insert p d(1,3) b(1,2,3) w [THEN conjunct1] w [THEN conjunct2]) (intro conjI; assumption)
qed


section \<open>The engine adapter\<close>

text \<open>
  C8. The report \<^verbatim>\<open>"0.0 850.0\n5.3 121.9\n"\<close> parses, and the result of the trial has
  lifetime 5.3 (end time minus start time), end altitude 121.9 and is ok.
\<close>

theorem parse_example_report:
  "parseTwoLineReport (Some ''0.0 850.0\<newline>5.3 121.9\<newline>'') = Some (0, 850, 53 / 10, 1219 / 10) \<and>
   runSingleTrajectory (\<lambda>i t m c. Some ''0.0 850.0\<newline>5.3 121.9\<newline>'') i t massKg maxDaysCap =
     (\<lparr>id_run = i, lifetime_days = 53 / 10, end_alt_km = 1219 / 10, trial = t, ok = True\<rparr>,
      [EngineRun i t])"
proof -
  have p: "parseTwoLineReport (Some ''0.0 850.0\<newline>5.3 121.9\<newline>'') =
      Some (0, 850, 53 / 10, 1219 / 10)"
    by (simp add: parser_defs)
  show ?thesis
    by (simp add: p runSingleTrajectory_def)
qed

text \<open>
  C6. When the report file of a trial is missing, has fewer than two lines, or one of
  its first two lines does not begin with two numeric tokens, the adapter returns a
  result that is not ok, after the warning, and the body of the worker loop neither
  prints the trial nor changes the local best: all it adds to the trace is the engine
  run and the warning.
\<close>

theorem unparseable_report_skipped:
  assumes "gmat i t massKg maxDaysCap = None \<or>
     (\<exists>content. gmat i t massKg maxDaysCap = Some content \<and>
        (length (text_lines content) < 2 \<or>
         \<not> two_numeric_tokens (text_lines content ! 0) \<or>
         \<not> two_numeric_tokens (text_lines content ! 1)))"
  shows "runSingleTrajectory gmat i t massKg maxDaysCap =
       (\<lparr>id_run = i, lifetime_days = 0, end_alt_km = 0, trial = t, ok = False\<rparr>,
        [EngineRun i t, Warn i]) \<and>
     (t = trial_of lib i \<longrightarrow>
        localBest (loop_body lib gmat rank massKg maxDaysCap i st) = localBest st \<and>
        trace (loop_body lib gmat rank massKg maxDaysCap i st) =
          trace st @ [EngineRun i t, Warn i])"
proof -
  from assms have "\<not> (\<exists>content. gmat i t massKg maxDaysCap = Some content \<and>
      well_formed_report content)"
    by (auto simp: not_well_formed_iff)
  then have p: "parseTwoLineReport (gmat i t massKg maxDaysCap) = None"
    using parseTwoLineReport_well_formed [of "gmat i t massKg maxDaysCap"] by blast
  have body: "localBest (loop_body lib gmat rank massKg maxDaysCap i st) = localBest st \<and>
      trace (loop_body lib gmat rank massKg maxDaysCap i st) = trace st @ [EngineRun i t, Warn i]"
    if "t = trial_of lib i"
    using loop_body_fail [of gmat i lib massKg maxDaysCap rank st] p that by simp
  from p body show ?thesis
    by (simp add: runSingleTrajectory_fail)
qed

theorem unparseable_report_skipped_witness:
  "runSingleTrajectory (\<lambda>i t m c. None) 3 (trial_of sample_libc 3) 200 90 =
     (\<lparr>id_run = 3, lifetime_days = 0, end_alt_km = 0, trial = trial_of sample_libc 3,
       ok = False\<rparr>,
      [EngineRun 3 (trial_of sample_libc 3), Warn 3]) \<and>
   length (text_lines ''0.0 850.0\<newline>'') < 2 \<and>
   localBest (loop_body sample_libc (\<lambda>i t m c. Some ''0.0 850.0\<newline>'') 0 200 90 3 initial_state) =
     localBest initial_state \<and>
   \<not> two_numeric_tokens (text_lines ''0.0 850.0\<newline>5.3 abc\<newline>'' ! 1) \<and>
   trace (loop_body sample_libc (\<lambda>i t m c. Some ''0.0 850.0\<newline>5.3 abc\<newline>'') 0 200 90 3 initial_state) =
     trace initial_state @ [EngineRun 3 (trial_of sample_libc 3), Warn 3]"
  using unparseable_report_skipped
      [of "\<lambda>i t m c. None" 3 "trial_of sample_libc 3" 200 90 sample_libc 0 initial_state]
    unparseable_report_skipped
      [of "\<lambda>i t m c. Some ''0.0 850.0\<newline>''" 3 "trial_of sample_libc 3" 200 90 sample_libc 0 initial_state]
    unparseable_report_skipped
      [of "\<lambda>i t m c. Some ''0.0 850.0\<newline>5.3 abc\<newline>''" 3 "trial_of sample_libc 3" 200 90
          sample_libc 0 initial_state]
  by (simp add: text_lines_def two_numeric_tokens_def parser_defs)

text \<open>
  C10. \<^verbatim>\<open>parseTwoLineReport\<close> succeeds, and the result is ok, iff the file can be opened
  and each of its first two lines begins with two numeric tokens.  Lines after the
  second and what follows the second token of a line are ignored.  Nothing else is
  checked: a report whose end time precedes its start time parses, the result is ok
  with a negative lifetime, it beats the empty result and the loop body compares it
  with the local best.
\<close>

theorem parse_success_iff:
  "(parseTwoLineReport rep \<noteq> None \<longleftrightarrow>
      (\<exists>content. rep = Some content \<and> well_formed_report content)) \<and>
   (ok (fst (runSingleTrajectory gmat i t massKg maxDaysCap)) \<longleftrightarrow>
      parseTwoLineReport (gmat i t massKg maxDaysCap) \<noteq> None) \<and>
   (text_lines content = l1 # l2 # ls \<and> text_lines content' = l1 # l2 # ls' \<longrightarrow>
      parseTwoLineReport (Some content) = parseTwoLineReport (Some content')) \<and>
   (read_double l = Some (a, r) \<and> read_double r = Some (b, r') \<longrightarrow>
      read_pair l = Some (a, b)) \<and>
   (parseTwoLineReport (gmat i t massKg maxDaysCap) = Some (startA1, startAlt, endA1, endAlt) \<and>
    endA1 < startA1 \<longrightarrow>
      ok (fst (runSingleTrajectory gmat i t massKg maxDaysCap)) \<and>
      lifetime_days (fst (runSingleTrajectory gmat i t massKg maxDaysCap)) = endA1 - startA1 \<and>
      lifetime_days (fst (runSingleTrajectory gmat i t massKg maxDaysCap)) < 0 \<and>
      isBetter (fst (runSingleTrajectory gmat i t massKg maxDaysCap)) emptyResult eps_default \<and>
      (t = trial_of lib i \<longrightarrow>
         localBest (loop_body lib gmat rank massKg maxDaysCap i st) =
           keepBest (localBest st) (fst (runSingleTrajectory gmat i t massKg maxDaysCap))))"
proof -
  have c: "text_lines content = l1 # l2 # ls \<and> text_lines content' = l1 # l2 # ls' \<longrightarrow>
      parseTwoLineReport (Some content) = parseTwoLineReport (Some content')"
    by (simp add: parseTwoLineReport_lines)
  have d: "read_double l = Some (a, r) \<and> read_double r = Some (b, r') \<longrightarrow>
      read_pair l = Some (a, b)"
    by (simp add: read_pair_def)
  have e: "ok (fst (runSingleTrajectory gmat i t massKg maxDaysCap)) \<and>
      lifetime_days (fst (runSingleTrajectory gmat i t massKg maxDaysCap)) = endA1 - startA1 \<and>
      lifetime_days (fst (runSingleTrajectory gmat i t massKg maxDaysCap)) < 0 \<and>
      isBetter (fst (runSingleTrajectory gmat i t massKg maxDaysCap)) emptyResult eps_default \<and>
      (t = trial_of lib i \<longrightarrow>
         localBest (loop_body lib gmat rank massKg maxDaysCap i st) =
           keepBest (localBest st) (fst (runSingleTrajectory gmat i t massKg maxDaysCap)))"
    if p: "parseTwoLineReport (gmat i t massKg maxDaysCap) = Some (startA1, startAlt, endA1, endAlt)"
      and neg: "endA1 < startA1"
  proof -
    note r = runSingleTrajectory_ok [of gmat i t massKg maxDaysCap startA1 startAlt endA1 endAlt, OF p]
    have "localBest (loop_body lib gmat rank massKg maxDaysCap i st) =
           keepBest (localBest st) (fst (runSingleTrajectory gmat i t massKg maxDaysCap))"
      if "t = trial_of lib i"
      using loop_body_ok [of gmat i lib massKg maxDaysCap startA1 startAlt endA1 endAlt _ rank st]
        p r that by simp
    with neg show ?thesis
      by (simp add: r isBetter_def emptyResult_def)
  qed
  from c d e show ?thesis
    using parseTwoLineReport_well_formed [of rep]
      ok_runSingleTrajectory [of gmat i t massKg maxDaysCap]
    by blast
qed

theorem parse_success_iff_witness:
  "parseTwoLineReport (Some ''10.0 850.0 extra\<newline>5.0 121.9\<newline>third line\<newline>'') \<noteq> None \<and>
   well_formed_report ''10.0 850.0 extra\<newline>5.0 121.9\<newline>third line\<newline>'' \<and>
   parseTwoLineReport (Some ''10.0 850.0 extra\<newline>5.0 121.9\<newline>third line\<newline>'') =
     parseTwoLineReport (Some ''10.0 850.0 extra\<newline>5.0 121.9\<newline>'') \<and>
   read_pair ''10.0 850.0 extra'' = Some (10, 850) \<and>
   ok (fst (runSingleTrajectory
     (\<lambda>i t m c. Some ''10.0 850.0 extra\<newline>5.0 121.9\<newline>third line\<newline>'') 3
     (trial_of sample_libc 3) 200 90)) \<and>
   lifetime_days (fst (runSingleTrajectory
     (\<lambda>i t m c. Some ''10.0 850.0 extra\<newline>5.0 121.9\<newline>third line\<newline>'') 3
     (trial_of sample_libc 3) 200 90)) = - 5 \<and>
   localBest (loop_body sample_libc
     (\<lambda>i t m c. Some ''10.0 850.0 extra\<newline>5.0 121.9\<newline>third line\<newline>'') 0 200 90 3
     initial_state) =
   \<lparr>id_run = 3, lifetime_days = - 5, end_alt_km = 1219 / 10, trial = trial_of sample_libc 3,
     ok = True\<rparr>"
proof -
  have p: "parseTwoLineReport (Some ''10.0 850.0 extra\<newline>5.0 121.9\<newline>third line\<newline>'') =
      Some (10, 850, 5, 1219 / 10)"
    by (simp add: parser_defs)
  have p': "parseTwoLineReport (Some ''10.0 850.0 extra\<newline>5.0 121.9\<newline>'') =
      Some (10, 850, 5, 1219 / 10)"
    by (simp add: parser_defs)
  have l: "text_lines ''10.0 850.0 extra\<newline>5.0 121.9\<newline>third line\<newline>'' =
      [''10.0 850.0 extra'', ''5.0 121.9'', ''third line'']"
    by (simp add: text_lines_def)
  have l': "text_lines ''10.0 850.0 extra\<newline>5.0 121.9\<newline>'' =
      [''10.0 850.0 extra'', ''5.0 121.9'']"
    by (simp add: text_lines_def)
  have d1: "read_double ''10.0 850.0 extra'' = Some (10, '' 850.0 extra'')"
    by (simp add: parser_defs)
  have d2: "read_double '' 850.0 extra'' = Some (850, '' extra'')"
    by (simp add: parser_defs)
  show ?thesis
    using parse_success_iff
      [where rep = "Some ''10.0 850.0 extra\<newline>5.0 121.9\<newline>third line\<newline>''"
        and gmat = "\<lambda>i t m c. Some ''10.0 850.0 extra\<newline>5.0 121.9\<newline>third line\<newline>''"
        and i = 3 and t = "trial_of sample_libc 3" and massKg = 200 and maxDaysCap = 90
        and content = "''10.0 850.0 extra\<newline>5.0 121.9\<newline>third line\<newline>''"
        and content' = "''10.0 850.0 extra\<newline>5.0 121.9\<newline>''"
        and ?l1.0 = "''10.0 850.0 extra''" and ?l2.0 = "''5.0 121.9''"
        and ls = "[''third line'']" and ls' = "[]"
        and l = "''10.0 850.0 extra''" and a = 10 and r = "'' 850.0 extra''" and b = 850
        and r' = "'' extra''"
        and ?startA1.0 = 10 and startAlt = 850 and ?endA1.0 = 5 and endAlt = "1219 / 10"
        and lib = sample_libc and rank = 0 and st = initial_state]
    by (simp add: p p' l l' d1 d2 runSingleTrajectory_def keepBest_def isBetter_def
        initial_state_def emptyResult_def)
qed

section \<open>The trial generator\<close>

text \<open>
  C9 says that the three uniform values lie in [0,1), as the comment of \<^verbatim>\<open>urand\<close> does,
  so that no parameter attains the upper end of its range.  But \<^verbatim>\<open>rand\<close> may return
  \<^verbatim>\<open>RAND_MAX\<close>, and the quotient is then 1.  With the sample \<^verbatim>\<open>rand\<close> of the C standard
  the first draw for the trial 23650 is \<^verbatim>\<open>RAND_MAX\<close> and its altitude is 1000, and the
  second draw for the trial 4053 is \<^verbatim>\<open>RAND_MAX\<close> and its drag coefficient is the
  double 2.6.
\<close>

theorem upper_endpoint_attained:
  "fst (urand sample_libc (srand sample_libc (nat ((GLOBAL_SEED + 23650) mod 2 ^ 32)))) = 1 \<and>
   h0_km (trial_of sample_libc 23650) = 1000 \<and>
   Cd (trial_of sample_libc 4053) = fl (26 / 10)"
proof -
  have u: "fst (urand sample_libc (srand sample_libc (nat ((GLOBAL_SEED + 23650) mod 2 ^ 32)))) = 1"
    by (simp add: urand_def sample_libc_def GLOBAL_SEED_def fl_consts)
  have h: "h0_km (trial_of sample_libc 23650) = 1000"
    by (simp add: trial_of_def generateRandomLEO_def urand_def sample_libc_def GLOBAL_SEED_def
        fl_consts)
  have "Cd (trial_of sample_libc 4053) = fl (2 + fl (fl (6 / 10) * 1))"
    by (simp add: trial_of_def generateRandomLEO_def urand_def sample_libc_def GLOBAL_SEED_def
        fl_consts)
  also have "\<dots> = fl (2 + fl (5404319552844595 / 2 ^ 53))"
    by (simp only: fl_6_10 mult_1_right)
  also have "\<dots> = fl (2 + 5404319552844595 / 2 ^ 53)"
    by (simp only: fl_6_10_again)
  also have "\<dots> = fl (26 / 10)"
    by (simp only: fl_2_6 fl_26_10)
  finally show ?thesis using u h by simp
qed

section \<open>The worker loop\<close>

text \<open>
  C5 (as stated: for every trial count and every number of workers) fails at the end
  of the range of \<^verbatim>\<open>int\<close>.  With \<^verbatim>\<open>--n=2147483647\<close> on two processes, rank 0 reaches an
  index where \<^verbatim>\<open>GLOBAL_SEED + i\<close>, and later \<^verbatim>\<open>i += size\<close>, leaves the range of \<^verbatim>\<open>int\<close>:
  the behaviour is undefined, and the process does not run exactly the indices 0, 2,
  4, ... below the count.
\<close>

theorem strided_overflow:
  "runMonteCarloDecay sample_libc (\<lambda>i t m c. None) 1 [] 2147483647 0 2 200 90 =
     Some (Inl IntOverflow)"
proof -
  have "worker_loop sample_libc (\<lambda>i t m c. None) 2147483647 0 2 200 90 0
      \<lparr>rng = 1, localBest = emptyResult, trace = []\<rparr> = Some (Inl IntOverflow)"
    by (rule worker_loop_overflow [where j = 2147483646])
       (simp_all add: INT_MAX_def GLOBAL_SEED_def)
  then show ?thesis by (simp add: runMonteCarloDecay_def)
qed

text \<open>
  C5, amended. For every trial count \<open>N \<ge> 0\<close> and number of workers \<open>W \<ge> 1\<close> such that
  \<open>N + W\<close> and \<open>N + GLOBAL_SEED\<close> are at most \<open>INT_MAX + 1\<close> (no addition of the loop leaves
  the range of \<^verbatim>\<open>int\<close>): the loop of every rank \<open>r\<close> from 0 to \<open>W - 1\<close> ends, and it runs
  exactly the indices \<open>r\<close>, \<open>r + W\<close>, \<open>r + 2W\<close>, ... below \<open>N\<close>, in strictly increasing
  order; the indices of all ranks together are exactly 0, ..., \<open>N - 1\<close>, and no index
  belongs to two ranks.
\<close>

theorem strided_partition:
  assumes "0 \<le> numSimulations" and "1 \<le> size'"
    and "numSimulations + size' \<le> INT_MAX + 1"
    and "numSimulations + GLOBAL_SEED \<le> INT_MAX + 1"
  shows "(\<forall>rank. 0 \<le> rank \<and> rank < size' \<longrightarrow>
            (\<exists>st. worker_loop lib gmat numSimulations rank size' massKg maxDaysCap rank
                    \<lparr>rng = rng0, localBest = emptyResult, trace = []\<rparr> = Some (Inr st) \<and>
                  engine_runs (trace st) = stride_indices rank numSimulations size') \<and>
            sorted_wrt (<) (stride_indices rank numSimulations size') \<and>
            set (stride_indices rank numSimulations size') =
              {i. i < numSimulations \<and> (\<exists>k::nat. i = rank + int k * size')}) \<and>
         (\<Union>rank\<in>{0..<size'}. set (stride_indices rank numSimulations size')) =
           {0..<numSimulations} \<and>
         (\<forall>r r'. 0 \<le> r \<and> r < size' \<and> 0 \<le> r' \<and> r' < size' \<and> r \<noteq> r' \<longrightarrow>
            set (stride_indices r numSimulations size') \<inter>
            set (stride_indices r' numSimulations size') = {})"
proof -
  have run: "\<exists>st. worker_loop lib gmat numSimulations rank size' massKg maxDaysCap rank
                    \<lparr>rng = rng0, localBest = emptyResult, trace = []\<rparr> = Some (Inr st) \<and>
                  engine_runs (trace st) = stride_indices rank numSimulations size'"
    if "0 \<le> rank" for rank
  proof -
    have "INT_MIN \<le> rank" using that by (simp add: INT_MIN_def)
    then have "worker_loop lib gmat numSimulations rank size' massKg maxDaysCap rank
          \<lparr>rng = rng0, localBest = emptyResult, trace = []\<rparr> =
        Some (Inr (foldl (\<lambda>s j. loop_body lib gmat rank massKg maxDaysCap j s)
          \<lparr>rng = rng0, localBest = emptyResult, trace = []\<rparr>
          (stride_indices rank numSimulations size')))"
      by (rule worker_loop_total [OF assms(2,3,4)])
    then show ?thesis by (simp add: engine_runs_foldl)
  qed
  from run assms(2) show ?thesis
    using sorted_stride_indices [OF assms(2)] set_stride_indices_ex [OF assms(2)]
      stride_union [OF assms(2)] stride_disjoint [OF assms(2)]
    by (intro conjI allI impI) simp_all
qed

theorem strided_partition_witness:
  "(0::int) \<le> 20 \<and> (1::int) \<le> 3 \<and> 20 + 3 \<le> INT_MAX + 1 \<and> 20 + GLOBAL_SEED \<le> INT_MAX + 1 \<and>
   (\<exists>st. worker_loop sample_libc (\<lambda>i t m c. None) 20 0 3 200 90 0
           \<lparr>rng = 1, localBest = emptyResult, trace = []\<rparr> = Some (Inr st) \<and>
         engine_runs (trace st) = [0, 3, 6, 9, 12, 15, 18]) \<and>
   (\<exists>st. worker_loop sample_libc (\<lambda>i t m c. None) 20 1 3 200 90 1
           \<lparr>rng = 1, localBest = emptyResult, trace = []\<rparr> = Some (Inr st) \<and>
         engine_runs (trace st) = [1, 4, 7, 10, 13, 16, 19]) \<and>
   (\<exists>st. worker_loop sample_libc (\<lambda>i t m c. None) 20 2 3 200 90 2
           \<lparr>rng = 1, localBest = emptyResult, trace = []\<rparr> = Some (Inr st) \<and>
         engine_runs (trace st) = [2, 5, 8, 11, 14, 17]) \<and>
   sorted_wrt (<) (stride_indices 1 20 3) \<and>
   set (stride_indices 1 20 3) = {i. i < 20 \<and> (\<exists>k::nat. i = 1 + int k * 3)} \<and>
   (\<Union>rank\<in>{0..<3}. set (stride_indices rank 20 3)) = {0..<20} \<and>
   set (stride_indices 0 20 3) \<inter> set (stride_indices 1 20 3) = {}"
proof -
  have l: "stride_indices 0 20 3 = [0, 3, 6, 9, 12, 15, 18]"
    "stride_indices 1 20 3 = [1, 4, 7, 10, 13, 16, 19]"
    "stride_indices 2 20 3 = [2, 5, 8, 11, 14, 17]"
    by (simp_all add: stride_indices_Cons stride_indices_Nil)
  have h: "(0::int) \<le> 20" "(1::int) \<le> 3" "20 + 3 \<le> INT_MAX + 1" "20 + GLOBAL_SEED \<le> INT_MAX + 1"
    by (simp_all add: INT_MAX_def GLOBAL_SEED_def)
  note sp = strided_partition [OF h, where lib = sample_libc and gmat = "\<lambda>i t m c. None"
      and massKg = 200 and maxDaysCap = 90 and ?rng0.0 = 1]
  note a = sp [THEN conjunct1, rule_format]
  note b = sp [THEN conjunct2, THEN conjunct1]
  note c = sp [THEN conjunct2, THEN conjunct2, rule_format]
  have r0: "(0::int) \<le> 0 \<and> (0::int) < 3" and r1: "(0::int) \<le> 1 \<and> (1::int) < 3"
    and r2: "(0::int) \<le> 2 \<and> (2::int) < 3" by simp_all
  note a0 = a [OF r0, THEN conjunct1, unfolded l]
  note a1 = a [OF r1, THEN conjunct1, unfolded l]
  note a2 = a [OF r2, THEN conjunct1, unfolded l]
  note s1 = a [OF r1, THEN conjunct2, THEN conjunct1]
  note e1 = a [OF r1, THEN conjunct2, THEN conjunct2]
  have d: "set (stride_indices 0 20 3) \<inter> set (stride_indices 1 20 3) = {}"
    by (rule c) simp
  show ?thesis
    by (insert h a0 a1 a2 s1 e1 b d) (intro conjI; assumption)
qed

text \<open>
  C4. The trial of an index is the same in any two runs on the same C library,
  whatever the rank that runs the index, the number of workers, the trial count, the
  engine and the state of the generator at the start: the generator is seeded with
  \<^verbatim>\<open>GLOBAL_SEED + i\<close> just before the three draws, so the trial is \<open>trial_of lib i\<close>.
\<close>

theorem trial_deterministic_by_index:
  assumes "runMonteCarloDecay lib gmat1 rng1 inbox1 numSimulations1 rank1 size1 massKg1 maxDaysCap1 =
      Some (Inr tr1)"
    and "runMonteCarloDecay lib gmat2 rng2 inbox2 numSimulations2 rank2 size2 massKg2 maxDaysCap2 =
      Some (Inr tr2)"
    and "EngineRun i t1 \<in> set tr1" and "EngineRun i t2 \<in> set tr2"
  shows "t1 = t2 \<and> t1 = trial_of lib i"
  using runMonteCarloDecay_trials [OF assms(1,3)] runMonteCarloDecay_trials [OF assms(2,4)]
  by simp


theorem trial_deterministic_by_index_witness:
  "runMonteCarloDecay sample_libc (\<lambda>i t m c. None) 1 [] 2 1 2 200 90 =
     Some (Inr [EngineRun 1 (trial_of sample_libc 1), Warn 1, Send emptyResult]) \<and>
   runMonteCarloDecay sample_libc (\<lambda>i t m c. None) 7 [] 2 0 1 200 90 =
     Some (Inr [EngineRun 0 (trial_of sample_libc 0), Warn 0,
                EngineRun 1 (trial_of sample_libc 1), Warn 1, NoSuccessfulRuns]) \<and>
   trial_of sample_libc 1 =
     \<lparr>h0_km = fl (500 + fl (500 * fl (20396 / 32767))),
      Cd = fl (2 + fl (fl (6 / 10) * fl (19018 / 32767))),
      A2M = fl (fl (5 / 1000) + fl (fl (45 / 1000) * fl (1433 / 32767)))\<rparr>"
proof -
  have f: "\<forall>i t. parseTwoLineReport ((\<lambda>i t m c. None) i t (200::real) (90::real)) = None"
    by (simp add: parseTwoLineReport_def)
  have b: "(1::int) \<le> 2" "2 + 2 \<le> INT_MAX + 1" "2 + GLOBAL_SEED \<le> INT_MAX + 1" "INT_MIN \<le> 1"
    "(1::int) \<le> 1" "2 + 1 \<le> INT_MAX + 1" "INT_MIN \<le> 0"
    by (simp_all add: INT_MAX_def INT_MIN_def GLOBAL_SEED_def)
  have r1: "runMonteCarloDecay sample_libc (\<lambda>i t m c. None) 1 [] 2 1 2 200 90 =
     Some (Inr [EngineRun 1 (trial_of sample_libc 1), Warn 1, Send emptyResult])"
    unfolding runMonteCarloDecay_def worker_loop_total [OF b(1,2,3,4)]
    using foldl_loop_body_fail [where gmat = "\<lambda>i t m c. None" and massKg = 200
        and maxDaysCap = 90 and lib = sample_libc and rank = 1
        and st = "\<lparr>rng = 1, localBest = emptyResult, trace = []\<rparr>"
        and js = "stride_indices 1 2 2", OF f]
    by (simp add: stride_indices_Cons stride_indices_Nil)
  have r2: "runMonteCarloDecay sample_libc (\<lambda>i t m c. None) 7 [] 2 0 1 200 90 =
     Some (Inr [EngineRun 0 (trial_of sample_libc 0), Warn 0,
                EngineRun 1 (trial_of sample_libc 1), Warn 1, NoSuccessfulRuns])"
    unfolding runMonteCarloDecay_def worker_loop_total [OF b(5,6,3,7)]
    using foldl_loop_body_fail [where gmat = "\<lambda>i t m c. None" and massKg = 200
        and maxDaysCap = 90 and lib = sample_libc and rank = 0
        and st = "\<lparr>rng = 7, localBest = emptyResult, trace = []\<rparr>"
        and js = "stride_indices 0 2 1", OF f]
    by (simp add: stride_indices_Cons stride_indices_Nil recv_loop.simps report_best_def
        emptyResult_def)
  have t: "trial_of sample_libc 1 =
     \<lparr>h0_km = fl (500 + fl (500 * fl (20396 / 32767))),
      Cd = fl (2 + fl (fl (6 / 10) * fl (19018 / 32767))),
      A2M = fl (fl (5 / 1000) + fl (fl (45 / 1000) * fl (1433 / 32767)))\<rparr>"
    by (simp add: trial_of_def generateRandomLEO_def urand_def sample_libc_def GLOBAL_SEED_def)
  from trial_deterministic_by_index [OF r1 r2, of 1 "trial_of sample_libc 1" "trial_of sample_libc 1"]
    r1 r2 t
  show ?thesis by simp
qed

section \<open>The coordinator\<close>

text \<open>
  C7. A record that is not ok never replaces the accumulator, valid or not.  When
  every record received is not ok and so is the coordinator's own, the receive loop
  returns the coordinator's own record and the report is the line of no successful
  runs.  When every trial fails to parse (on ranks whose loop stays in the range of
  \<^verbatim>\<open>int\<close>), rank 0 ends with that line and prints no best run and no result, and every
  other rank sends the empty record.
\<close>

theorem all_invalid_no_successful_runs:
  assumes inv: "\<forall>r\<in>set inbox. \<not> ok r"
    and len: "int (length inbox) = size' - 1"
    and fail: "\<forall>i t. parseTwoLineReport (gmat i t massKg maxDaysCap) = None"
    and sz: "1 \<le> size'"
    and b1: "numSimulations + size' \<le> INT_MAX + 1"
    and b2: "numSimulations + GLOBAL_SEED \<le> INT_MAX + 1"
  shows "(\<forall>best r. \<not> ok r \<longrightarrow> keepBest best r = best) \<and>
     (\<forall>own. \<not> ok own \<longrightarrow>
        recv_loop size' 1 inbox own = Some own \<and> report_best own = NoSuccessfulRuns) \<and>
     (\<exists>tr. runMonteCarloDecay lib gmat rng0 inbox numSimulations 0 size' massKg maxDaysCap =
             Some (Inr (tr @ [NoSuccessfulRuns])) \<and>
           (\<forall>r. BestRun r \<notin> set tr \<and> PrintResult 0 r \<notin> set tr)) \<and>
     (\<forall>rank. 0 < rank \<longrightarrow>
        (\<exists>tr. runMonteCarloDecay lib gmat rng0 inbox numSimulations rank size' massKg maxDaysCap =
             Some (Inr (tr @ [Send emptyResult]))))"
proof -
  have a: "\<forall>best r. \<not> ok r \<longrightarrow> keepBest best r = best"
    by (simp add: keepBest_invalid)
  have b: "\<forall>own. \<not> ok own \<longrightarrow>
        recv_loop size' 1 inbox own = Some own \<and> report_best own = NoSuccessfulRuns"
    by (simp add: recv_loop_all_invalid [OF inv len] report_best_def)
  have loop: "worker_loop lib gmat numSimulations rank size' massKg maxDaysCap rank
        \<lparr>rng = rng0, localBest = emptyResult, trace = []\<rparr> =
      Some (Inr (foldl (\<lambda>s j. loop_body lib gmat rank massKg maxDaysCap j s)
        \<lparr>rng = rng0, localBest = emptyResult, trace = []\<rparr>
        (stride_indices rank numSimulations size')))"
    if "0 \<le> rank" for rank
    by (rule worker_loop_total [OF sz b1 b2]) (use that in \<open>simp add: INT_MIN_def\<close>)
  note ff = foldl_loop_body_fail [where gmat = gmat and massKg = massKg
      and maxDaysCap = maxDaysCap and lib = lib
      and st = "\<lparr>rng = rng0, localBest = emptyResult, trace = []\<rparr>", OF fail]
  have e0: "\<not> ok emptyResult" by (simp add: emptyResult_def)
  have c: "\<exists>tr. runMonteCarloDecay lib gmat rng0 inbox numSimulations 0 size' massKg maxDaysCap =
             Some (Inr (tr @ [NoSuccessfulRuns])) \<and>
           (\<forall>r. BestRun r \<notin> set tr \<and> PrintResult 0 r \<notin> set tr)"
    using ff [of 0 "stride_indices 0 numSimulations size'"] b e0
    by (auto simp: runMonteCarloDecay_def loop)
  have d: "\<exists>tr. runMonteCarloDecay lib gmat rng0 inbox numSimulations rank size' massKg maxDaysCap =
             Some (Inr (tr @ [Send emptyResult]))" if "0 < rank" for rank
    using ff [of rank "stride_indices rank numSimulations size'"] that
    by (simp add: runMonteCarloDecay_def loop)
  from a b c d show ?thesis by blast
qed

theorem all_invalid_no_successful_runs_witness:
  "\<not> ok emptyResult \<and> \<not> ok (mkResult 4 0 700 False) \<and>
   int (length [emptyResult, mkResult 4 0 700 False]) = 3 - 1 \<and>
   keepBest (mkResult 1 5 900 True) (mkResult 4 0 700 False) = mkResult 1 5 900 True \<and>
   recv_loop 3 1 [emptyResult, mkResult 4 0 700 False] emptyResult = Some emptyResult \<and>
   report_best emptyResult = NoSuccessfulRuns \<and>
   (\<exists>tr. runMonteCarloDecay sample_libc (\<lambda>i t m c. None) 1 [emptyResult, mkResult 4 0 700 False]
            5 0 3 200 90 = Some (Inr (tr @ [NoSuccessfulRuns])) \<and>
         (\<forall>r. BestRun r \<notin> set tr \<and> PrintResult 0 r \<notin> set tr)) \<and>
   (\<exists>tr. runMonteCarloDecay sample_libc (\<lambda>i t m c. None) 1 [emptyResult, mkResult 4 0 700 False]
            5 2 3 200 90 = Some (Inr (tr @ [Send emptyResult])))"
proof -
  have e: "\<not> ok emptyResult" "\<not> ok (mkResult 4 0 700 False)"
    by (simp_all add: emptyResult_def mkResult_def)
  have h: "\<forall>r\<in>set [emptyResult, mkResult 4 0 700 False]. \<not> ok r"
    "int (length [emptyResult, mkResult 4 0 700 False]) = 3 - 1"
    "\<forall>i t. parseTwoLineReport ((\<lambda>i t m c. None) i t (200::real) (90::real)) = None"
    "(1::int) \<le> 3" "5 + 3 \<le> INT_MAX + 1" "5 + GLOBAL_SEED \<le> INT_MAX + 1"
    using e by (simp_all add: parseTwoLineReport_def INT_MAX_def GLOBAL_SEED_def)
  note w = all_invalid_no_successful_runs [where inbox = "[emptyResult, mkResult 4 0 700 False]"
      and size' = 3 and gmat = "\<lambda>i t m c. None" and massKg = 200 and maxDaysCap = 90
      and numSimulations = 5 and lib = sample_libc and ?rng0.0 = 1, OF h]
  note k = w [THEN conjunct1, rule_format, OF e(2), of "mkResult 1 5 900 True"]
  note r = w [THEN conjunct2, THEN conjunct1, rule_format, OF e(1)]
  note c = w [THEN conjunct2, THEN conjunct2, THEN conjunct1]
  have two: "(0::int) < 2" by simp
  note d = w [THEN conjunct2, THEN conjunct2, THEN conjunct2, rule_format, OF two]
  show ?thesis
    by (insert e h(2) k r [THEN conjunct1] r [THEN conjunct2] c d) (intro conjI; assumption)
qed

end
